theory Spec2Isabelle
  imports Complex_Main "HOL-Library.Sublist" "HOL-Library.Log_Nat"
begin

section \<open>Voxtext: the transcription worker\<close>

text \<open>
  A shallow embedding of \<^verbatim>\<open>TranscriptionWorker\<close> of \<^verbatim>\<open>voxtext_win.py\<close>: the timestamp
  formatter, the six exporters and the \<^verbatim>\<open>run\<close> method with its progress, cancellation
  and failure handling.

  Conventions of the embedding.
  \<^item> A Python \<^verbatim>\<open>float\<close> is the \<^typ>\<open>real\<close> it denotes. The arithmetic of the timestamp
    formatter rounds every result to IEEE 754 binary64 as CPython does; the progress
    percentages are computed exactly.
  \<^item> A Python \<^verbatim>\<open>str\<close> is a \<^typ>\<open>string\<close>; a \<^typ>\<open>char\<close> stands for a code point below 256.
  \<^item> An exception is a value of \<open>exn\<close>; a Qt signal emission, a read of the cancellation
    flag, a call of the inference library and a file write are recorded, in order, in the
    trace a computation returns.
  \<^item> What the worker cannot decide itself (the flag another thread sets, the outcome of
    library calls, the file system) is read from an environment record.
\<close>

subsection \<open>Python numbers and strings\<close>

text \<open>
  A finite binary64 number is the real it denotes; the two zeros are not distinguished.
  \<open>round_double\<close> rounds a real to the nearest binary64 number, ties to the even
  significand: the spacing is \<open>2 ^ (e - 52)\<close> in the binade \<open>2 ^ e \<le> \<bar>x\<bar> < 2 ^ (e + 1)\<close> and
  \<open>2 ^ - 1074\<close> below \<open>2 ^ - 1022\<close>. Overflow to infinity is not represented; no
  operation of the formatter on a finite number exceeds the magnitude of its operands.
\<close>

definition pow2 :: "int \<Rightarrow> real" where
  "pow2 e = (if 0 \<le> e then 2 ^ nat e else 1 / 2 ^ nat (- e))"

definition ilog2 :: "real \<Rightarrow> int" where
  "ilog2 a = (if 1 \<le> a then bitlen \<lfloor>a\<rfloor> - 1 else - bitlen (\<lceil>1 / a\<rceil> - 1))"

definition round_half_even :: "real \<Rightarrow> int" where
  "round_half_even x =
     (let f = \<lfloor>x\<rfloor>; d = x - of_int f
      in if d < 1 / 2 then f else if 1 / 2 < d then f + 1 else if even f then f else f + 1)"

definition round_double :: "real \<Rightarrow> real" where
  "round_double x =
     (if x = 0 then 0
      else let a = \<bar>x\<bar>;
               e = max (ilog2 a) (- 1022);
               u = pow2 (e - 52)
           in sgn x * (of_int (round_half_even (a / u)) * u))"


text \<open>
  \<^verbatim>\<open>x % y\<close> and \<^verbatim>\<open>x // y\<close> on floats, as \<^verbatim>\<open>float_rem\<close> and \<^verbatim>\<open>float_floor_div\<close> of CPython
  compute them from C's \<^verbatim>\<open>fmod\<close>, whose result is exact; \<^verbatim>\<open>x * y\<close>; \<^verbatim>\<open>int(x)\<close> (truncation
  towards zero). The divisors of the formatter are the non-zero constants 3600, 60 and 1.
\<close>

definition c_fmod :: "real \<Rightarrow> real \<Rightarrow> real" where
  "c_fmod x y = x - y * of_int (if 0 \<le> x / y then \<lfloor>x / y\<rfloor> else \<lceil>x / y\<rceil>)"

definition py_mod :: "real \<Rightarrow> real \<Rightarrow> real" where
  "py_mod vx wx =
     (let mod' = c_fmod vx wx
      in if mod' \<noteq> 0 \<and> (wx < 0) \<noteq> (mod' < 0) then round_double (mod' + wx) else mod')"

definition py_floordiv :: "real \<Rightarrow> real \<Rightarrow> real" where
  "py_floordiv vx wx =
     (let mod' = c_fmod vx wx;
          div0 = round_double (round_double (vx - mod') / wx);
          div' = (if mod' \<noteq> 0 \<and> (wx < 0) \<noteq> (mod' < 0) then round_double (div0 - 1)
                  else div0)
      in if div' \<noteq> 0 then
           (let floordiv = of_int \<lfloor>div'\<rfloor>
            in if 1 / 2 < round_double (div' - floordiv) then round_double (floordiv + 1)
               else floordiv)
         else 0)"

definition py_mul :: "real \<Rightarrow> real \<Rightarrow> real" where
  "py_mul x y = round_double (x * y)"

definition py_int :: "real \<Rightarrow> int" where
  "py_int x = (if 0 \<le> x then \<lfloor>x\<rfloor> else \<lceil>x\<rceil>)"

text \<open>Decimal digits of a natural number, as \<^verbatim>\<open>str(n)\<close> prints them.\<close>

definition digit_char :: "nat \<Rightarrow> char" where
  "digit_char d = char_of (48 + d)"

fun dec_digits :: "nat \<Rightarrow> string" where
  "dec_digits n =
     (if n < 10 then [digit_char n] else dec_digits (n div 10) @ [digit_char (n mod 10)])"

declare dec_digits.simps [simp del]

text \<open>
  The format specification \<^verbatim>\<open>{n:0wd}\<close>: sign-aware zero padding to width \<open>w\<close>; a longer
  number is printed in full.
\<close>

definition zfill :: "nat \<Rightarrow> string \<Rightarrow> string" where
  "zfill w s = replicate (w - length s) CHR ''0'' @ s"

definition format_d :: "nat \<Rightarrow> int \<Rightarrow> string" where
  "format_d w n =
     (if n < 0 then CHR ''-'' # zfill (w - 1) (dec_digits (nat (- n)))
      else zfill w (dec_digits (nat n)))"

text \<open>\<^verbatim>\<open>str.isspace\<close>, \<^verbatim>\<open>str.strip()\<close>, \<^verbatim>\<open>str.lower()\<close> and \<^verbatim>\<open>a in b\<close> on strings.\<close>

definition py_isspace :: "char \<Rightarrow> bool" where
  "py_isspace c =
     (let n = (of_char c :: nat)
      in (9 \<le> n \<and> n \<le> 13) \<or> (28 \<le> n \<and> n \<le> 32) \<or> n = 133 \<or> n = 160)"

definition strip :: "string \<Rightarrow> string" where
  "strip s = rev (dropWhile py_isspace (rev (dropWhile py_isspace s)))"

definition lower_char :: "char \<Rightarrow> char" where
  "lower_char c =
     (let n = (of_char c :: nat)
      in if (65 \<le> n \<and> n \<le> 90) \<or> (192 \<le> n \<and> n \<le> 222 \<and> n \<noteq> 215)
         then char_of (n + 32) else c)"

definition lower :: "string \<Rightarrow> string" where
  "lower s = map lower_char s"

definition py_in :: "string \<Rightarrow> string \<Rightarrow> bool" where
  "py_in a b = sublist a b"

subsection \<open>Data\<close>

text \<open>
  The inference result is the dictionary Whisper returns: the full text and the timed
  segments. The settings dictionary of the caption styling has the keys \<^verbatim>\<open>enabled\<close>,
  \<^verbatim>\<open>cue_settings\<close> and \<^verbatim>\<open>css\<close>; the constructor replaces a missing one by the empty
  dictionary, whose lookups give the defaults of \<^verbatim>\<open>.get\<close>.
\<close>

record segment =
  seg_start :: real
  seg_end :: real
  seg_text :: string

record transcription =
  result_text :: string
  result_segments :: "segment list"

record lms =
  enabled :: bool
  cue_settings :: string
  css :: string

record worker =
  file_path :: string
  model_name :: string
  output_formats :: "string list"
  output_dir :: string
  lms_settings :: "lms option"

definition lms_get_enabled :: "worker \<Rightarrow> bool" where
  "lms_get_enabled self = (case lms_settings self of None \<Rightarrow> False | Some d \<Rightarrow> enabled d)"

definition lms_get_css :: "worker \<Rightarrow> string" where
  "lms_get_css self = (case lms_settings self of None \<Rightarrow> [] | Some d \<Rightarrow> css d)"

definition lms_get_cue_settings :: "worker \<Rightarrow> string" where
  "lms_get_cue_settings self =
     (case lms_settings self of None \<Rightarrow> [] | Some d \<Rightarrow> cue_settings d)"

text \<open>A path built by \<^verbatim>\<open>output_dir / name\<close>: a file name inside a directory.\<close>

record path =
  parent :: string
  name :: string

definition joinpath :: "string \<Rightarrow> string \<Rightarrow> path" where
  "joinpath d n = \<lparr>parent = d, name = n\<rparr>"

subsection \<open>Timestamp formatter\<close>

definition format_timestamp :: "real \<Rightarrow> bool \<Rightarrow> string" where
  "format_timestamp seconds use_comma =
    (let hours = py_int (py_floordiv seconds 3600);
         minutes = py_int (py_floordiv (py_mod seconds 3600) 60);
         secs = py_int (py_mod seconds 60);
         millisecs = py_int (py_mul (py_mod seconds 1) 1000);
         separator = (if use_comma then '','' else ''.'')
     in format_d 2 hours @ '':'' @ format_d 2 minutes @ '':'' @ format_d 2 secs
        @ separator @ format_d 3 millisecs)"

subsection \<open>Exporters\<close>

text \<open>
  Each exporter opens its file for writing and appends to it; the model passes the text
  written so far as the last argument of a loop and returns the content of the file.
\<close>

fun write_srt_loop :: "nat \<Rightarrow> segment list \<Rightarrow> string \<Rightarrow> string" where
  "write_srt_loop i [] f = f"
| "write_srt_loop i (segment # rest) f =
     (let start = format_timestamp (seg_start segment) True;
          end = format_timestamp (seg_end segment) True;
          text = strip (seg_text segment);
          f1 = f @ (dec_digits i @ ''\<newline>'');
          f2 = f1 @ (start @ '' --> '' @ end @ ''\<newline>'');
          f3 = f2 @ (text @ ''\<newline>\<newline>'')
      in write_srt_loop (Suc i) rest f3)"

definition write_srt :: "transcription \<Rightarrow> string" where
  "write_srt result = write_srt_loop 1 (result_segments result) []"

fun write_vtt_loop :: "string \<Rightarrow> segment list \<Rightarrow> string \<Rightarrow> string" where
  "write_vtt_loop cue [] f = f"
| "write_vtt_loop cue (segment # rest) f =
     (let start = format_timestamp (seg_start segment) False;
          end = format_timestamp (seg_end segment) False;
          text = strip (seg_text segment);
          f1 = f @ (start @ '' --> '' @ end @ cue @ ''\<newline>'');
          f2 = f1 @ (text @ ''\<newline>\<newline>'')
      in write_vtt_loop cue rest f2)"

definition write_vtt :: "worker \<Rightarrow> transcription \<Rightarrow> string" where
  "write_vtt self result =
     (let f0 = ''WEBVTT\<newline>'';
          f1 = (if lms_get_enabled self then
                  (let css_content = strip (lms_get_css self)
                   in if css_content \<noteq> [] then
                        f0 @ ''\<newline>STYLE\<newline>'' @ css_content @ ''\<newline>''
                      else f0)
                else f0);
          f2 = f1 @ ''\<newline>'';
          cue = (if lms_get_enabled self then
                   (let c = strip (lms_get_cue_settings self)
                    in if c \<noteq> [] then '' '' @ c else c)
                 else [])
      in write_vtt_loop cue (result_segments result) f2)"

definition write_html :: "transcription \<Rightarrow> string" where
  "write_html result =
     ''<h3>Full Transcript</h3>\<newline><details>\<newline><summary>Click to expand transcript</summary>\<newline>\<newline>''
     @ result_text result
     @ ''\<newline>\<newline></details>\<newline>\<newline><p><em>Transcribed with Voxtext using OpenAI Whisper</em></p>''"

definition write_markdown :: "transcription \<Rightarrow> string" where
  "write_markdown result =
     ''# Transcript\<newline>\<newline>'' @ result_text result
     @ ''\<newline>\<newline>---\<newline>\<newline>*Transcribed with Voxtext using OpenAI Whisper*\<newline>''"

subsection \<open>Events, exceptions and the environment of a job\<close>

text \<open>
  The three signals of the worker. \<open>Progress\<close> carries the message and the percentage,
  \<open>Finished\<close> the list of created files, \<open>Error\<close> the message.
\<close>

datatype event =
  Progress string int
| Finished "string list"
| Error string

text \<open>
  The exception classes \<^verbatim>\<open>run\<close> tells apart, each with the text \<^verbatim>\<open>str(e)\<close> gives;
  \<open>OtherException\<close> is any other subclass of \<^verbatim>\<open>Exception\<close>.
\<close>

datatype exn =
  URLError string
| FileNotFoundError string
| ZeroDivisionError
| OtherException string

fun exn_str :: "exn \<Rightarrow> string" where
  "exn_str (URLError m) = m"
| "exn_str (FileNotFoundError m) = m"
| "exn_str ZeroDivisionError = ''division by zero''"
| "exn_str (OtherException m) = m"

text \<open>The places where \<^verbatim>\<open>run\<close> reads \<^verbatim>\<open>self.cancelled\<close>, in program order.\<close>

datatype checkpoint =
  AtStart
| AfterLoad
| AfterTranscribe
| BeforeWrite string
| BeforeFinish
| InHandler

text \<open>
  What a job does that can be observed from outside, in order: a read of the cancellation
  flag with the value read, an emitted signal, a call of \<^verbatim>\<open>whisper.load_model\<close> with the
  model name and whether HTTPS certificates are verified at that moment, the call of
  \<^verbatim>\<open>model.transcribe\<close> with its file, language and mode, and a file written with its content.
\<close>

datatype action =
  Check checkpoint bool
| Emit event
| LoadModel string bool
| Transcribe string string string
| WriteFile path string

text \<open>
  The environment: the value of the flag at each read (another thread sets it), whether
  the imports at the head of \<^verbatim>\<open>run\<close> fail, the outcome of the \<open>k\<close>-th call of
  \<^verbatim>\<open>load_model\<close> under the given certificate verification, the outcome of the
  transcription, whether opening a file for writing fails, and the library functions
  \<^verbatim>\<open>Path(p).stem\<close>, \<^verbatim>\<open>str(path)\<close> and \<^verbatim>\<open>json.dump\<close> (with its \<^verbatim>\<open>indent\<close> and
  \<^verbatim>\<open>ensure_ascii\<close> arguments).
\<close>

record env =
  cancelled :: "checkpoint \<Rightarrow> bool"
  import_whisper :: "exn option"
  load_model :: "nat \<Rightarrow> bool \<Rightarrow> exn option"
  transcribe :: "exn + transcription"
  open_write :: "path \<Rightarrow> exn option"
  path_stem :: "string \<Rightarrow> string"
  path_str :: "path \<Rightarrow> string"
  json_dump :: "transcription \<Rightarrow> nat \<Rightarrow> bool \<Rightarrow> string"

text \<open>
  The state of the Python process that outlives a job: whether the default HTTPS context
  verifies certificates (\<^verbatim>\<open>ssl._create_default_https_context\<close>).
\<close>

record process =
  https_verified :: bool

text \<open>
  A computation either goes on with a value, leaves \<^verbatim>\<open>run\<close> by \<^verbatim>\<open>return\<close>, or raises.
  It returns its outcome, the actions it performed and the new process state.
\<close>

datatype 'a outcome =
  Normal 'a
| Return
| Raise exn

type_synonym 'a prog = "process \<Rightarrow> ('a outcome \<times> action list) \<times> process"

definition andthen :: "'a prog \<Rightarrow> ('a \<Rightarrow> 'b prog) \<Rightarrow> 'b prog" where
  "andthen m f g =
     (case m g of
        ((Normal x, tr), g1) \<Rightarrow>
          (case f x g1 of ((oc, tr'), g2) \<Rightarrow> ((oc, tr @ tr'), g2))
      | ((Return, tr), g1) \<Rightarrow> ((Return, tr), g1)
      | ((Raise e, tr), g1) \<Rightarrow> ((Raise e, tr), g1))"

definition emit :: "event \<Rightarrow> unit prog" where
  "emit ev g = ((Normal (), [Emit ev]), g)"

text \<open>\<^verbatim>\<open>if self.cancelled: return\<close>\<close>

definition return_if_cancelled :: "env \<Rightarrow> checkpoint \<Rightarrow> unit prog" where
  "return_if_cancelled E cp g =
     ((if cancelled E cp then Return else Normal (), [Check cp (cancelled E cp)]), g)"

definition do_import :: "env \<Rightarrow> unit prog" where
  "do_import E g =
     (case import_whisper E of None \<Rightarrow> ((Normal (), []), g) | Some e \<Rightarrow> ((Raise e, []), g))"

text \<open>\<^verbatim>\<open>with open(p, 'w', encoding='utf-8') as f: ...\<close>; a failure is one of \<^verbatim>\<open>open\<close>.\<close>

definition write_file :: "env \<Rightarrow> path \<Rightarrow> string \<Rightarrow> unit prog" where
  "write_file E p content g =
     (case open_write E p of
        None \<Rightarrow> ((Normal (), [WriteFile p content]), g)
      | Some e \<Rightarrow> ((Raise e, []), g))"

subsection \<open>The job\<close>

text \<open>
  Lines 118 to 125: the model is loaded; on a \<^verbatim>\<open>URLError\<close> whose text contains
  \<^verbatim>\<open>CERTIFICATE_VERIFY_FAILED\<close> the default HTTPS context of the process is replaced by
  the unverified one and the load is tried again, outside any handler of its own.
\<close>

definition acquire_model :: "env \<Rightarrow> worker \<Rightarrow> unit prog" where
  "acquire_model E self g =
     (case load_model E 0 (https_verified g) of
        None \<Rightarrow> ((Normal (), [LoadModel (model_name self) (https_verified g)]), g)
      | Some (URLError m) \<Rightarrow>
          (if py_in ''CERTIFICATE_VERIFY_FAILED'' m then
             (let g1 = g\<lparr>https_verified := False\<rparr>;
                  tr = [LoadModel (model_name self) (https_verified g),
                        LoadModel (model_name self) (https_verified g1)]
              in case load_model E 1 (https_verified g1) of
                   None \<Rightarrow> ((Normal (), tr), g1)
                 | Some e \<Rightarrow> ((Raise e, tr), g1))
           else ((Raise (URLError m), [LoadModel (model_name self) (https_verified g)]), g))
      | Some e \<Rightarrow> ((Raise e, [LoadModel (model_name self) (https_verified g)]), g))"

definition do_transcribe :: "env \<Rightarrow> worker \<Rightarrow> transcription prog" where
  "do_transcribe E self g =
     (case transcribe E of
        Inr result \<Rightarrow> ((Normal result, [Transcribe (file_path self) ''en'' ''transcribe'']), g)
      | Inl e \<Rightarrow> ((Raise e, [Transcribe (file_path self) ''en'' ''transcribe'']), g))"

text \<open>
  Line 149: \<^verbatim>\<open>15 / num_formats if num_formats > 0 else 15\<close>. The division raises on a
  zero divisor; the conditional evaluates it only for a positive one.
\<close>

definition py_truediv :: "real \<Rightarrow> real \<Rightarrow> exn + real" where
  "py_truediv x y = (if y = 0 then Inl ZeroDivisionError else Inr (x / y))"

definition progress_per_format :: "nat \<Rightarrow> exn + real" where
  "progress_per_format num_formats =
     (if num_formats > 0 then py_truediv 15 (real num_formats) else Inr 15)"

text \<open>
  Lines 152 to 206 are six blocks of one shape, in this order; they differ in the format
  key, which is also the file extension, and in the exporter.
\<close>

definition exporters :: "env \<Rightarrow> worker \<Rightarrow> (string \<times> (transcription \<Rightarrow> string)) list" where
  "exporters E self =
     [(''txt'', result_text),
      (''srt'', write_srt),
      (''vtt'', write_vtt self),
      (''html'', write_html),
      (''md'', write_markdown),
      (''json'', \<lambda>result. json_dump E result 2 False)]"

text \<open>
  One block: if the key is among the requested formats, return when cancelled, write the
  file, append its path to \<^verbatim>\<open>created_files\<close>, add the increment to
  \<^verbatim>\<open>current_progress\<close> and emit the progress signal. The blocks pass on
  \<^verbatim>\<open>created_files\<close> and \<^verbatim>\<open>current_progress\<close>.
\<close>

definition export_block ::
  "env \<Rightarrow> worker \<Rightarrow> transcription \<Rightarrow> string \<Rightarrow> real \<Rightarrow>
   string \<times> (transcription \<Rightarrow> string) \<Rightarrow> string list \<times> real \<Rightarrow> (string list \<times> real) prog" where
  "export_block E self result base_path per_format blk st =
     (case (blk, st) of ((fmt, writer), (created_files, current_progress)) \<Rightarrow>
        if fmt \<in> set (output_formats self) then
          andthen (return_if_cancelled E (BeforeWrite fmt)) (\<lambda>_.
            let p = joinpath (output_dir self) (base_path @ ''_transcript.'' @ fmt)
            in andthen (write_file E p (writer result)) (\<lambda>_.
                 let created_files' = created_files @ [path_str E p];
                     current_progress' = current_progress + per_format
                 in andthen (emit (Progress (''Created '' @ name p) (py_int current_progress')))
                      (\<lambda>_ g. ((Normal (created_files', current_progress'), []), g))))
        else (\<lambda>g. ((Normal (created_files, current_progress), []), g)))"

fun export_all ::
  "env \<Rightarrow> worker \<Rightarrow> transcription \<Rightarrow> string \<Rightarrow> real \<Rightarrow>
   (string \<times> (transcription \<Rightarrow> string)) list \<Rightarrow> string list \<times> real \<Rightarrow> (string list \<times> real) prog" where
  "export_all E self result base_path per_format [] st = (\<lambda>g. ((Normal st, []), g))"
| "export_all E self result base_path per_format (blk # blks) st =
     andthen (export_block E self result base_path per_format blk st)
       (export_all E self result base_path per_format blks)"

text \<open>Lines 146 to 209: the outputs, then the \<open>Finished\<close> signal unless cancelled.\<close>

definition write_outputs :: "env \<Rightarrow> worker \<Rightarrow> transcription \<Rightarrow> unit prog" where
  "write_outputs E self result =
     (let base_path = path_stem E (file_path self);
          num_formats = length (output_formats self)
      in case progress_per_format num_formats of
           Inl e \<Rightarrow> (\<lambda>g. ((Raise e, []), g))
         | Inr per_format \<Rightarrow>
             andthen (export_all E self result base_path per_format (exporters E self) ([], 80))
               (\<lambda>(created_files, current_progress) g.
                  ((Normal (),
                    Check BeforeFinish (cancelled E BeforeFinish)
                    # (if \<not> cancelled E BeforeFinish then [Emit (Finished created_files)] else [])),
                   g)))"

text \<open>The body of the \<^verbatim>\<open>try\<close>, lines 108 to 209.\<close>

definition run_body :: "env \<Rightarrow> worker \<Rightarrow> unit prog" where
  "run_body E self =
     andthen (do_import E) (\<lambda>_.
     andthen (return_if_cancelled E AtStart) (\<lambda>_.
     andthen (emit (Progress (''Loading '' @ model_name self @ '' model (first time downloads)...'') 5)) (\<lambda>_.
     andthen (acquire_model E self) (\<lambda>_.
     andthen (return_if_cancelled E AfterLoad) (\<lambda>_.
     andthen (emit (Progress ''Model loaded successfully.'' 10)) (\<lambda>_.
     andthen (emit (Progress ''Transcribing audio... This may take several minutes.'' 20)) (\<lambda>_.
     andthen (do_transcribe E self) (\<lambda>result.
     andthen (return_if_cancelled E AfterTranscribe) (\<lambda>_.
     andthen (emit (Progress ''Transcription complete. Writing output files...'' 80)) (\<lambda>_.
     write_outputs E self result))))))))))"

text \<open>The two handlers, lines 211 to 229.\<close>

definition ffmpeg_message :: string where
  "ffmpeg_message =
     ''FFmpeg not found!\<newline>\<newline>Whisper requires FFmpeg to process audio/video files.\<newline>\<newline>''
     @ ''To install on Mac:\<newline>  brew install ffmpeg\<newline>\<newline>''
     @ ''To install on Windows:\<newline>  Download from ffmpeg.org\<newline>\<newline>''
     @ ''To install on Linux:\<newline>  sudo apt install ffmpeg''"

definition error_message :: "exn \<Rightarrow> string" where
  "error_message e =
     (case e of
        FileNotFoundError m \<Rightarrow> (if py_in ''ffmpeg'' (lower m) then ffmpeg_message else m)
      | _ \<Rightarrow> exn_str e)"

definition handle :: "env \<Rightarrow> exn \<Rightarrow> action list" where
  "handle E e =
     Check InHandler (cancelled E InHandler)
     # (if \<not> cancelled E InHandler then [Emit (Error (error_message e))] else [])"

text \<open>\<^verbatim>\<open>run\<close>: the actions of the job and the process state it leaves.\<close>

definition run :: "env \<Rightarrow> worker \<Rightarrow> process \<Rightarrow> action list \<times> process" where
  "run E self g =
     (case run_body E self g of
        ((Raise e, tr), g') \<Rightarrow> (tr @ handle E e, g')
      | ((_, tr), g') \<Rightarrow> (tr, g'))"

subsection \<open>Reading a trace\<close>

definition events :: "action list \<Rightarrow> event list" where
  "events tr = concat (map (\<lambda>a. case a of Emit ev \<Rightarrow> [ev] | _ \<Rightarrow> []) tr)"

definition percentages :: "action list \<Rightarrow> int list" where
  "percentages tr = concat (map (\<lambda>a. case a of Emit (Progress m p) \<Rightarrow> [p] | _ \<Rightarrow> []) tr)"

definition loads :: "action list \<Rightarrow> action list" where
  "loads tr = filter (\<lambda>a. case a of LoadModel m v \<Rightarrow> True | _ \<Rightarrow> False) tr"

definition written :: "action list \<Rightarrow> path list" where
  "written tr = concat (map (\<lambda>a. case a of WriteFile p c \<Rightarrow> [p] | _ \<Rightarrow> []) tr)"

definition is_terminal :: "action \<Rightarrow> bool" where
  "is_terminal a = (case a of Emit (Finished fs) \<Rightarrow> True | Emit (Error m) \<Rightarrow> True | _ \<Rightarrow> False)"

subsection \<open>Vocabulary of the statements\<close>




text \<open>
  One cue of the numbered subtitle file, as the specification describes it: the index
  line, the timestamp line in the comma dialect, the trimmed text, a blank line. One cue
  of the web caption file: the timestamp line in the period dialect with a suffix, the
  trimmed text, a blank line.
\<close>

definition srt_cue :: "nat \<Rightarrow> segment \<Rightarrow> string" where
  "srt_cue i seg =
     dec_digits i @ ''\<newline>''
     @ format_timestamp (seg_start seg) True @ '' --> '' @ format_timestamp (seg_end seg) True @ ''\<newline>''
     @ strip (seg_text seg) @ ''\<newline>''
     @ ''\<newline>''"

definition vtt_cue :: "string \<Rightarrow> segment \<Rightarrow> string" where
  "vtt_cue sfx seg =
     format_timestamp (seg_start seg) False @ '' --> '' @ format_timestamp (seg_end seg) False
     @ sfx @ ''\<newline>''
     @ strip (seg_text seg) @ ''\<newline>''
     @ ''\<newline>''"

text \<open>
  The canonical order of the formats, the formats of it that a job requests, and the path
  of the artifact of a format: \<open><stem>_transcript.<extension>\<close> in the destination directory.
\<close>

definition canonical_order :: "string list" where
  "canonical_order = [''txt'', ''srt'', ''vtt'', ''html'', ''md'', ''json'']"

definition requested :: "worker \<Rightarrow> string list \<Rightarrow> string list" where
  "requested self keys = filter (\<lambda>fmt. fmt \<in> set (output_formats self)) keys"

definition export_path :: "worker \<Rightarrow> string \<Rightarrow> string \<Rightarrow> path" where
  "export_path self base_path fmt = joinpath (output_dir self) (base_path @ ''_transcript.'' @ fmt)"

text \<open>
  A certificate-trust failure is what line 121 tests for: a \<^verbatim>\<open>URLError\<close> whose text contains
  \<^verbatim>\<open>CERTIFICATE_VERIFY_FAILED\<close>. \<open>is_transcribe\<close> recognises the inference call in a trace.
\<close>

definition cert_failure :: "exn \<Rightarrow> bool" where
  "cert_failure e = (case e of URLError m \<Rightarrow> py_in ''CERTIFICATE_VERIFY_FAILED'' m | _ \<Rightarrow> False)"

definition is_transcribe :: "action \<Rightarrow> bool" where
  "is_transcribe a = (case a of Transcribe f l t \<Rightarrow> True | _ \<Rightarrow> False)"

subsection \<open>Auxiliary notions of the proofs\<close>

text \<open>
  The increment line 149 computes, and the last statement of the \<^verbatim>\<open>try\<close> body (lines 208
  and 209) as a trace.
\<close>

definition per_format_of :: "worker \<Rightarrow> real" where
  "per_format_of self =
     (if length (output_formats self) > 0 then 15 / real (length (output_formats self)) else 15)"

definition finish :: "env \<Rightarrow> string list \<Rightarrow> action list" where
  "finish E created_files =
     Check BeforeFinish (cancelled E BeforeFinish)
     # (if \<not> cancelled E BeforeFinish then [Emit (Finished created_files)] else [])"

text \<open>
  A trace is quiet when it holds no terminal event and no read of a set flag; it has ended
  when it is a quiet trace followed by one terminal event or one read of a set flag; it is
  consistent when every read shows the value the environment gives at that place.
\<close>

definition quiet :: "action list \<Rightarrow> bool" where
  "quiet tr = (\<forall>a \<in> set tr. \<not> is_terminal a \<and> (\<forall>cp. a \<noteq> Check cp True))"

definition ended :: "action list \<Rightarrow> bool" where
  "ended tr = (\<exists>pre x. tr = pre @ [x] \<and> quiet pre \<and> (is_terminal x \<or> (\<exists>cp. x = Check cp True)))"

definition consistent :: "env \<Rightarrow> action list \<Rightarrow> bool" where
  "consistent E tr = (\<forall>cp b. Check cp b \<in> set tr \<longrightarrow> b = cancelled E cp)"

text \<open>
  The shape of the trace of a part of the job, by its outcome: of a part before the last
  statement of the body, and of a part that includes it.
\<close>

definition shaped :: "env \<Rightarrow> 'a outcome \<times> action list \<Rightarrow> bool" where
  "shaped E r =
     ((\<forall>cp b. Check cp b \<in> set (snd r) \<longrightarrow> b = cancelled E cp)
      \<and> (case fst r of
            Return \<Rightarrow> (\<exists>pre cp. snd r = pre @ [Check cp True] \<and> quiet pre)
          | _ \<Rightarrow> quiet (snd r)))"

definition body_shaped :: "env \<Rightarrow> 'a outcome \<times> action list \<Rightarrow> bool" where
  "body_shaped E r =
     (consistent E (snd r)
      \<and> (case fst r of Raise e \<Rightarrow> quiet (snd r) | _ \<Rightarrow> ended (snd r)))"

text \<open>The result of a computation with a trace put in front of its own.\<close>

definition prepend :: "action list \<Rightarrow> ('a outcome \<times> action list) \<times> process \<Rightarrow> ('a outcome \<times> action list) \<times> process" where
  "prepend pre r = ((fst (fst r), pre @ snd (fst r)), snd r)"

subsection \<open>Example jobs\<close>

text \<open>
  A job on \<^verbatim>\<open>in/talk.mp4\<close> with the plain text format, and environments for it: one where
  nothing fails and nobody cancels, one whose model download fails the certificate check
  while certificates are verified, one whose download fails it always, and one where the
  job is cancelled while the model loads. \<open>verified\<close> is a fresh process.
\<close>

definition example_result :: transcription where
  "example_result =
     \<lparr>result_text = ''hello'',
      result_segments = [\<lparr>seg_start = 0.0, seg_end = 1.5, seg_text = '' hello ''\<rparr>]\<rparr>"

definition example_job :: worker where
  "example_job =
     \<lparr>file_path = ''in/talk.mp4'', model_name = ''base'', output_formats = [''txt''],
      output_dir = ''in'', lms_settings = None\<rparr>"

definition example_env :: env where
  "example_env =
     \<lparr>cancelled = (\<lambda>cp. False),
      import_whisper = None,
      load_model = (\<lambda>k v. None),
      transcribe = Inr example_result,
      open_write = (\<lambda>p. None),
      path_stem = (\<lambda>p. ''talk''),
      path_str = (\<lambda>p. parent p @ ''/'' @ name p),
      json_dump = (\<lambda>r i a. ''{}'')\<rparr>"

definition cert_message :: string where
  "cert_message = ''<urlopen error [SSL: CERTIFICATE_VERIFY_FAILED] certificate verify failed>''"

definition untrusted_env :: env where
  "untrusted_env = example_env\<lparr>load_model := (\<lambda>k v. if v then Some (URLError cert_message) else None)\<rparr>"

definition unreachable_env :: env where
  "unreachable_env = example_env\<lparr>load_model := (\<lambda>k v. Some (URLError cert_message))\<rparr>"

definition cancelling_env :: env where
  "cancelling_env = example_env\<lparr>cancelled := (\<lambda>cp. cp = AfterLoad)\<rparr>"

definition verified :: process where
  "verified = \<lparr>https_verified = True\<rparr>"

definition unordered_job :: worker where
  "unordered_job = example_job\<lparr>output_formats := [''json'', ''srt'', ''txt'']\<rparr>"

definition empty_job :: worker where
  "empty_job = example_job\<lparr>output_formats := []\<rparr>"

section \<open>Properties\<close>

subsection \<open>Decimal fields\<close>














subsection \<open>Rounding to binary64\<close>





lemma rhe_bounds: "of_int \<lfloor>x\<rfloor> \<le> (of_int (round_half_even x) :: real)"
  "round_half_even x \<le> \<lfloor>x\<rfloor> + 1"
  by (simp_all add: round_half_even_def Let_def)




lemma ilog2_ge1: "1 \<le> a \<Longrightarrow> ilog2 a = bitlen \<lfloor>a\<rfloor> - 1"
  by (simp add: ilog2_def)














subsection \<open>Fields of a timestamp\<close>




















subsection \<open>Exporters\<close>

lemma write_srt_loop_cues:
  "write_srt_loop i segs f = f @ concat (map (\<lambda>(k, seg). srt_cue k seg) (enumerate i segs))"
  by (induction segs arbitrary: i f) (simp_all add: srt_cue_def Let_def)

lemma write_vtt_loop_cues:
  "write_vtt_loop cue segs f = f @ concat (map (vtt_cue cue) segs)"
  by (induction segs arbitrary: f) (simp_all add: vtt_cue_def Let_def)

lemma strip_hello: "strip '' hello '' = ''hello''"
  by code_simp

lemma srt_example:
  "write_srt \<lparr>result_text = t, result_segments = [\<lparr>seg_start = 0.0, seg_end = 1.5, seg_text = '' hello ''\<rparr>]\<rparr>
   = ''1\<newline>00:00:00,000 --> 00:00:01,500\<newline>hello\<newline>\<newline>''"
proof -
  have a: "format_timestamp 0 True = ''00:00:00,000''" by code_simp
  have b: "format_timestamp (3 / 2) True = ''00:00:01,500''" by code_simp
  have c: "dec_digits (Suc 0) = ''1''" by code_simp
  show ?thesis
    by (simp add: write_srt_def Let_def a b c strip_hello)
qed

lemma enumerate_nth: "enumerate n xs = map (\<lambda>i. (n + i, xs ! i)) [0..<length xs]"
  by (rule nth_equalityI) (simp_all add: nth_enumerate_eq)

text \<open>
  Claim C5. The numbered-cue exporter writes, for the segments in order, one cue each: the
  index line counting from 1, the \<open>start --> end\<close> line in the comma dialect, the trimmed
  text and a blank line. For the single segment from 0.0 to 1.5 with text \<open>" hello "\<close>
  the file is the four lines \<open>1\<close>, \<open>00:00:00,000 --> 00:00:01,500\<close>, \<open>hello\<close> and
  the empty line.
\<close>

theorem write_srt_cues:
  "write_srt result
     = concat (map (\<lambda>i. srt_cue (i + 1) (result_segments result ! i))
                   [0..<length (result_segments result)])
   \<and> write_srt \<lparr>result_text = t, result_segments =
          [\<lparr>seg_start = 0.0, seg_end = 1.5, seg_text = '' hello ''\<rparr>]\<rparr>
     = ''1\<newline>00:00:00,000 --> 00:00:01,500\<newline>hello\<newline>\<newline>''"
proof -
  have "write_srt result
      = concat (map (\<lambda>(k, seg). srt_cue k seg) (enumerate 1 (result_segments result)))"
    using write_srt_loop_cues[of 1 "result_segments result" "[]"] by (simp add: write_srt_def)
  also have "\<dots> = concat (map (\<lambda>i. srt_cue (i + 1) (result_segments result ! i))
                   [0..<length (result_segments result)])"
    by (simp add: enumerate_nth comp_def)
  finally show ?thesis using srt_example[of t] by simp
qed

lemma write_vtt_eq:
  "write_vtt self result =
     ''WEBVTT\<newline>''
     @ (if lms_get_enabled self \<and> strip (lms_get_css self) \<noteq> []
        then ''\<newline>STYLE\<newline>'' @ strip (lms_get_css self) @ ''\<newline>'' else [])
     @ ''\<newline>''
     @ concat (map (vtt_cue (if lms_get_enabled self \<and> strip (lms_get_cue_settings self) \<noteq> []
                              then '' '' @ strip (lms_get_cue_settings self) else []))
                   (result_segments result))"
  by (simp add: write_vtt_def Let_def write_vtt_loop_cues)

text \<open>
  Claim C6, amended. The web caption file is the header line, then the style block, then
  a blank line, then the cues. The style block is present if and only if styling is
  enabled and the style text is non-empty after trimming surrounding whitespace, and it
  then holds the trimmed style text between the \<open>STYLE\<close> line and a line end; with styling
  disabled, or enabled with a style text that is empty or only whitespace, there is none.
\<close>

theorem write_vtt_style_block:
  "write_vtt self result =
     ''WEBVTT\<newline>''
     @ (if lms_get_enabled self \<and> strip (lms_get_css self) \<noteq> []
        then ''\<newline>STYLE\<newline>'' @ strip (lms_get_css self) @ ''\<newline>'' else [])
     @ ''\<newline>''
     @ write_vtt_loop (if lms_get_enabled self \<and> strip (lms_get_cue_settings self) \<noteq> []
                       then '' '' @ strip (lms_get_cue_settings self) else [])
         (result_segments result) []"
  by (simp add: write_vtt_eq write_vtt_loop_cues)

text \<open>
  Against C6 as stated: styling enabled and a non-empty style text, one space, and the
  file is the header line and the blank line, with no style block.
\<close>

theorem write_vtt_style_block_counterexample:
  "enabled \<lparr>enabled = True, cue_settings = [], css = '' ''\<rparr>
   \<and> css \<lparr>enabled = True, cue_settings = [], css = '' ''\<rparr> \<noteq> []
   \<and> write_vtt
        \<lparr>file_path = ''a.mp4'', model_name = ''base'', output_formats = [''vtt''],
         output_dir = ''d'',
         lms_settings = Some \<lparr>enabled = True, cue_settings = [], css = '' ''\<rparr>\<rparr>
        \<lparr>result_text = [], result_segments = []\<rparr>
     = ''WEBVTT\<newline>\<newline>''"
  by code_simp

text \<open>
  Claim C7, amended. The web caption file is its header part (the file for no segments)
  followed by one cue per segment, and every timestamp line ends in one space and the
  trimmed cue-positioning directive when styling is enabled and the directive is
  non-empty after trimming; otherwise nothing is appended to any timestamp line.
\<close>

theorem write_vtt_cue_settings:
  "write_vtt self result =
     write_vtt self (result\<lparr>result_segments := []\<rparr>)
     @ concat (map (\<lambda>seg.
          format_timestamp (seg_start seg) False @ '' --> '' @ format_timestamp (seg_end seg) False
          @ (if lms_get_enabled self \<and> strip (lms_get_cue_settings self) \<noteq> []
             then '' '' @ strip (lms_get_cue_settings self) else [])
          @ ''\<newline>'' @ strip (seg_text seg) @ ''\<newline>\<newline>'')
        (result_segments result))"
  by (simp add: write_vtt_eq vtt_cue_def [abs_def])

text \<open>
  Against C7 as stated: styling enabled and a non-empty directive, one space, and the
  timestamp line of the segment has no suffix.
\<close>

theorem write_vtt_cue_settings_counterexample:
  "enabled \<lparr>enabled = True, cue_settings = '' '', css = []\<rparr>
   \<and> cue_settings \<lparr>enabled = True, cue_settings = '' '', css = []\<rparr> \<noteq> []
   \<and> write_vtt
        \<lparr>file_path = ''a.mp4'', model_name = ''base'', output_formats = [''vtt''],
         output_dir = ''d'',
         lms_settings = Some \<lparr>enabled = True, cue_settings = '' '', css = []\<rparr>\<rparr>
        \<lparr>result_text = ''hello'', result_segments =
           [\<lparr>seg_start = 0.0, seg_end = 1.5, seg_text = '' hello ''\<rparr>]\<rparr>
     = ''WEBVTT\<newline>\<newline>00:00:00.000 --> 00:00:01.500\<newline>hello\<newline>\<newline>''"
  by code_simp

subsection \<open>The job: traces of its parts\<close>

lemma andthen_emit:
  "andthen (emit ev) f g = (case f () g of ((oc, tr), g') \<Rightarrow> ((oc, Emit ev # tr), g'))"
  by (simp add: andthen_def emit_def)

lemma andthen_check:
  "andthen (return_if_cancelled E cp) f g =
     (if cancelled E cp then ((Return, [Check cp True]), g)
      else (case f () g of ((oc, tr), g') \<Rightarrow> ((oc, Check cp False # tr), g')))"
  by (simp add: andthen_def return_if_cancelled_def)

lemma andthen_import:
  "andthen (do_import E) f g =
     (case import_whisper E of None \<Rightarrow> f () g | Some e \<Rightarrow> ((Raise e, []), g))"
  by (simp add: andthen_def do_import_def split: option.splits prod.splits)

lemma andthen_write_file:
  "andthen (write_file E p c) f g =
     (case open_write E p of
        None \<Rightarrow> (case f () g of ((oc, tr), g') \<Rightarrow> ((oc, WriteFile p c # tr), g'))
      | Some e \<Rightarrow> ((Raise e, []), g))"
  by (simp add: andthen_def write_file_def split: option.splits prod.splits)

lemma andthen_transcribe:
  "andthen (do_transcribe E self) f g =
     (case transcribe E of
        Inr result \<Rightarrow> (case f result g of ((oc, tr), g') \<Rightarrow>
                        ((oc, Transcribe (file_path self) ''en'' ''transcribe'' # tr), g'))
      | Inl e \<Rightarrow> ((Raise e, [Transcribe (file_path self) ''en'' ''transcribe'']), g))"
  by (simp add: andthen_def do_transcribe_def split: sum.splits prod.splits)

lemma export_block_eq:
  "export_block E self result base_path per_format (fmt, writer) (created_files, current_progress) g =
     (if fmt \<in> set (output_formats self) then
        if cancelled E (BeforeWrite fmt) then ((Return, [Check (BeforeWrite fmt) True]), g)
        else (case open_write E (export_path self base_path fmt) of
                Some e \<Rightarrow> ((Raise e, [Check (BeforeWrite fmt) False]), g)
              | None \<Rightarrow>
                  ((Normal (created_files @ [path_str E (export_path self base_path fmt)],
                            current_progress + per_format),
                    [Check (BeforeWrite fmt) False,
                     WriteFile (export_path self base_path fmt) (writer result),
                     Emit (Progress (''Created '' @ base_path @ ''_transcript.'' @ fmt)
                             (py_int (current_progress + per_format)))]), g))
      else ((Normal (created_files, current_progress), []), g))"
  by (simp add: export_block_def andthen_check andthen_write_file andthen_emit Let_def
      export_path_def joinpath_def split: option.splits)

lemma quiet_Nil [simp]: "quiet []"
  by (simp add: quiet_def)

lemma quiet_append [simp]: "quiet (xs @ ys) \<longleftrightarrow> quiet xs \<and> quiet ys"
  by (auto simp: quiet_def)

lemma quiet_Cons: "quiet (a # xs) \<longleftrightarrow> \<not> is_terminal a \<and> (\<forall>cp. a \<noteq> Check cp True) \<and> quiet xs"
  by (auto simp: quiet_def)

lemma quiet_simps [simp]:
  "quiet (Check cp b # xs) \<longleftrightarrow> \<not> b \<and> quiet xs"
  "quiet (Emit (Progress m p) # xs) \<longleftrightarrow> quiet xs"
  "quiet (LoadModel n v # xs) \<longleftrightarrow> quiet xs"
  "quiet (Transcribe f l t # xs) \<longleftrightarrow> quiet xs"
  "quiet (WriteFile pa c # xs) \<longleftrightarrow> quiet xs"
  "\<not> quiet (Emit (Finished fs) # xs)"
  "\<not> quiet (Emit (Error m) # xs)"
  by (auto simp: quiet_Cons is_terminal_def)

lemma shaped_prepend:
  assumes "shaped E (oc, tr)" "quiet pre" "\<forall>cp b. Check cp b \<in> set pre \<longrightarrow> b = cancelled E cp"
  shows "shaped E (oc, pre @ tr)"
proof (cases oc)
  case Return
  with assms(1) obtain p cp where "tr = p @ [Check cp True]" "quiet p"
    by (auto simp: shaped_def)
  then have "pre @ tr = (pre @ p) @ [Check cp True] \<and> quiet (pre @ p)"
    using assms(2) by simp
  then have "\<exists>q cp. pre @ tr = q @ [Check cp True] \<and> quiet q" by blast
  then show ?thesis using assms Return by (auto simp: shaped_def)
qed (use assms in \<open>auto simp: shaped_def\<close>)

lemma export_all_Cons:
  "export_all E self result base_path per_format ((fmt, writer) # blks) (created_files, current_progress) g =
     (if fmt \<in> set (output_formats self) then
        if cancelled E (BeforeWrite fmt) then ((Return, [Check (BeforeWrite fmt) True]), g)
        else (case open_write E (export_path self base_path fmt) of
                Some e \<Rightarrow> ((Raise e, [Check (BeforeWrite fmt) False]), g)
              | None \<Rightarrow>
                  (case export_all E self result base_path per_format blks
                          (created_files @ [path_str E (export_path self base_path fmt)],
                           current_progress + per_format) g of
                     ((oc, tr), g') \<Rightarrow>
                       ((oc, [Check (BeforeWrite fmt) False,
                              WriteFile (export_path self base_path fmt) (writer result),
                              Emit (Progress (''Created '' @ base_path @ ''_transcript.'' @ fmt)
                                      (py_int (current_progress + per_format)))] @ tr), g')))
      else export_all E self result base_path per_format blks (created_files, current_progress) g)"
  by (simp add: andthen_def export_block_eq split: prod.splits outcome.splits option.splits)

lemma export_all_state:
  "snd (export_all E self result base_path per_format blks st g) = g"
proof (induction blks arbitrary: st g)
  case Nil
  show ?case by simp
next
  case (Cons blk blks)
  obtain fmt writer where blk: "blk = (fmt, writer)" by (cases blk)
  obtain cf cp where st: "st = (cf, cp)" by (cases st)
  show ?case
    unfolding blk st export_all_Cons using Cons.IH
    by (auto split: prod.splits option.splits dest: arg_cong[where f = snd])
qed

lemma export_all_shaped:
  "shaped E (fst (export_all E self result base_path per_format blks st g))"
proof (induction blks arbitrary: st g)
  case Nil
  show ?case by (simp add: shaped_def)
next
  case (Cons blk blks)
  obtain fmt writer where blk: "blk = (fmt, writer)" by (cases blk)
  obtain cf cp where st: "st = (cf, cp)" by (cases st)
  let ?pre = "[Check (BeforeWrite fmt) False,
               WriteFile (export_path self base_path fmt) (writer result),
               Emit (Progress (''Created '' @ base_path @ ''_transcript.'' @ fmt)
                       (py_int (cp + per_format)))]"
  have pre: "\<not> cancelled E (BeforeWrite fmt) \<Longrightarrow> shaped E (oc, tr) \<Longrightarrow> shaped E (oc, ?pre @ tr)" for oc :: "(string list \<times> real) outcome" and tr
    by (rule shaped_prepend) auto
  show ?case
  proof (cases "fmt \<in> set (output_formats self)")
    case False
    then show ?thesis unfolding blk st export_all_Cons using Cons.IH by simp
  next
    case True
    show ?thesis
    proof (cases "cancelled E (BeforeWrite fmt)")
      case c: True
      have "\<exists>pre cp. [Check (BeforeWrite fmt) True] = pre @ [Check cp True] \<and> quiet pre"
        by (rule exI[of _ "[]"]) simp
      then show ?thesis unfolding blk st export_all_Cons using True c
        by (simp add: shaped_def)
    next
      case c: False
      show ?thesis
      proof (cases "open_write E (export_path self base_path fmt)")
        case (Some e)
        then show ?thesis unfolding blk st export_all_Cons using True c
          by (simp add: shaped_def)
      next
        case None
        obtain oc tr g' where r: "export_all E self result base_path per_format blks
              (cf @ [path_str E (export_path self base_path fmt)], cp + per_format) g = ((oc, tr), g')"
          by (metis prod.exhaust)
        have "shaped E (oc, tr)" using Cons.IH[of "(cf @ [path_str E (export_path self base_path fmt)], cp + per_format)" g] r by simp
        then have "shaped E (oc, ?pre @ tr)" using c by (rule pre[rotated])
        then show ?thesis unfolding blk st export_all_Cons using True c None r
          by simp
      qed
    qed
  qed
qed

lemma percentages_simps [simp]:
  "percentages [] = []"
  "percentages (xs @ ys) = percentages xs @ percentages ys"
  "percentages (Emit (Progress m q) # xs) = q # percentages xs"
  "percentages (Emit (Finished fs) # xs) = percentages xs"
  "percentages (Emit (Error m) # xs) = percentages xs"
  "percentages (Check c b # xs) = percentages xs"
  "percentages (LoadModel n v # xs) = percentages xs"
  "percentages (Transcribe f l t # xs) = percentages xs"
  "percentages (WriteFile pa co # xs) = percentages xs"
  by (simp_all add: percentages_def)

lemma py_int_mono: "0 \<le> x \<Longrightarrow> x \<le> y \<Longrightarrow> py_int x \<le> py_int y"
  by (simp add: py_int_def floor_mono)

lemma export_all_percentages:
  assumes "0 \<le> per_format" "0 \<le> cp"
  shows "sorted (percentages (snd (fst (export_all E self result base_path per_format blks (cf, cp) g))))
       \<and> (\<forall>q \<in> set (percentages (snd (fst (export_all E self result base_path per_format blks (cf, cp) g)))).
             py_int cp \<le> q
           \<and> q \<le> py_int (cp + real (length (filter (\<lambda>b. fst b \<in> set (output_formats self)) blks)) * per_format))"
  using assms(2)
proof (induction blks arbitrary: cf cp g)
  case Nil
  show ?case by simp
next
  case (Cons blk blks)
  obtain fmt writer where blk: "blk = (fmt, writer)" by (cases blk)
  let ?k = "real (length (filter (\<lambda>b. fst b \<in> set (output_formats self)) blks))"
  show ?case
  proof (cases "fmt \<in> set (output_formats self) \<and> \<not> cancelled E (BeforeWrite fmt)
                \<and> open_write E (export_path self base_path fmt) = None")
    case False
    then show ?thesis unfolding blk export_all_Cons using Cons.IH[OF Cons.prems]
      by (auto split: option.splits)
  next
    case True
    let ?cf = "cf @ [path_str E (export_path self base_path fmt)]"
    obtain oc tr g' where r: "export_all E self result base_path per_format blks
              (?cf, cp + per_format) g = ((oc, tr), g')"
      by (metis prod.exhaust)
    have cp': "0 \<le> cp + per_format" using assms(1) Cons.prems by simp
    from Cons.IH[OF cp', of ?cf g] r
    have ih: "sorted (percentages tr)"
      "\<And>q. q \<in> set (percentages tr) \<Longrightarrow> py_int (cp + per_format) \<le> q
            \<and> q \<le> py_int (cp + per_format + ?k * per_format)"
      by auto
    have lo: "py_int cp \<le> py_int (cp + per_format)"
      using Cons.prems assms(1) by (intro py_int_mono) auto
    have "0 \<le> ?k * per_format" using assms(1) by simp
    then have hi: "py_int (cp + per_format) \<le> py_int (cp + per_format + ?k * per_format)"
      using cp' by (intro py_int_mono) auto
    have eq: "cp + per_format + ?k * per_format = cp + (1 + ?k) * per_format"
      by (simp add: algebra_simps)
    have all: "py_int cp \<le> q \<and> py_int (cp + per_format) \<le> q
               \<and> q \<le> py_int (cp + (1 + ?k) * per_format)"
      if "q \<in> set (percentages tr)" for q
      using ih(2)[OF that] lo unfolding eq by linarith
    have hi': "py_int (cp + per_format) \<le> py_int (cp + (1 + ?k) * per_format)"
      using hi unfolding eq .
    show ?thesis unfolding blk export_all_Cons using True r ih(1) lo hi' all
      by auto
  qed
qed

lemma written_simps [simp]:
  "written [] = []"
  "written (xs @ ys) = written xs @ written ys"
  "written (Emit ev # xs) = written xs"
  "written (Check c b # xs) = written xs"
  "written (LoadModel n v # xs) = written xs"
  "written (Transcribe f l t # xs) = written xs"
  "written (WriteFile pa co # xs) = pa # written xs"
  by (simp_all add: written_def)

lemma loads_simps [simp]:
  "loads [] = []"
  "loads (xs @ ys) = loads xs @ loads ys"
  "loads (Emit ev # xs) = loads xs"
  "loads (Check c b # xs) = loads xs"
  "loads (LoadModel n v # xs) = LoadModel n v # loads xs"
  "loads (Transcribe f l t # xs) = loads xs"
  "loads (WriteFile pa co # xs) = loads xs"
  by (simp_all add: loads_def)

lemma is_transcribe_simps [simp]:
  "is_transcribe (Transcribe f l t)"
  "\<not> is_transcribe (Emit ev)"
  "\<not> is_transcribe (Check c b)"
  "\<not> is_transcribe (LoadModel n v)"
  "\<not> is_transcribe (WriteFile pa co)"
  by (simp_all add: is_transcribe_def)

lemma export_all_written:
  "prefix (written (snd (fst (export_all E self result base_path per_format blks (cf, cp) g))))
          (map (export_path self base_path) (requested self (map fst blks)))
   \<and> (\<forall>cf' cp'. fst (fst (export_all E self result base_path per_format blks (cf, cp) g)) = Normal (cf', cp')
        \<longrightarrow> written (snd (fst (export_all E self result base_path per_format blks (cf, cp) g)))
              = map (export_path self base_path) (requested self (map fst blks))
          \<and> cf' = cf @ map (path_str E) (map (export_path self base_path) (requested self (map fst blks)))
          \<and> cp' = cp + real (length (requested self (map fst blks))) * per_format)"
proof (induction blks arbitrary: cf cp g)
  case Nil
  show ?case by (simp add: requested_def)
next
  case (Cons blk blks)
  obtain fmt writer where blk: "blk = (fmt, writer)" by (cases blk)
  show ?case
  proof (cases "fmt \<in> set (output_formats self) \<and> \<not> cancelled E (BeforeWrite fmt)
                \<and> open_write E (export_path self base_path fmt) = None")
    case False
    then show ?thesis unfolding blk export_all_Cons using Cons.IH[of cf cp g]
      by (auto simp: requested_def split: option.splits)
  next
    case True
    let ?cf = "cf @ [path_str E (export_path self base_path fmt)]"
    obtain oc tr g' where r: "export_all E self result base_path per_format blks
              (?cf, cp + per_format) g = ((oc, tr), g')"
      by (metis prod.exhaust)
    show ?thesis unfolding blk export_all_Cons using True r Cons.IH[of ?cf "cp + per_format" g]
      by (auto simp: requested_def algebra_simps)
  qed
qed

lemma export_all_other:
  "loads (snd (fst (export_all E self result base_path per_format blks st g))) = []
   \<and> filter is_transcribe (snd (fst (export_all E self result base_path per_format blks st g))) = []"
proof (induction blks arbitrary: st g)
  case Nil
  show ?case by simp
next
  case (Cons blk blks)
  obtain fmt writer where blk: "blk = (fmt, writer)" by (cases blk)
  obtain cf cp where st: "st = (cf, cp)" by (cases st)
  show ?case unfolding blk st export_all_Cons
    using Cons.IH[of "(cf, cp)" g]
      Cons.IH[of "(cf @ [path_str E (export_path self base_path fmt)], cp + per_format)" g]
    by (auto split: option.splits prod.splits)
qed

lemma prepend_simps [simp]:
  "prepend pre ((oc, tr), g) = ((oc, pre @ tr), g)"
  "fst (fst (prepend pre r)) = fst (fst r)"
  "snd (fst (prepend pre r)) = pre @ snd (fst r)"
  "snd (prepend pre r) = snd r"
  by (simp_all add: prepend_def)

lemma progress_per_format_eq:
  "progress_per_format n = Inr (if n > 0 then 15 / real n else 15)"
  by (simp add: progress_per_format_def py_truediv_def)

lemma write_outputs_eq:
  "write_outputs E self result g =
     (case export_all E self result (path_stem E (file_path self)) (per_format_of self)
             (exporters E self) ([], 80) g of
        ((Normal (cf, cp), tr), g') \<Rightarrow> ((Normal (), tr @ finish E cf), g')
      | ((Return, tr), g') \<Rightarrow> ((Return, tr), g')
      | ((Raise e, tr), g') \<Rightarrow> ((Raise e, tr), g'))"
  by (simp add: write_outputs_def Let_def progress_per_format_eq per_format_of_def andthen_def finish_def
      split: prod.splits outcome.splits)

lemma run_body_eq:
  "run_body E self g =
     (case import_whisper E of
        Some e \<Rightarrow> ((Raise e, []), g)
      | None \<Rightarrow>
         if cancelled E AtStart then ((Return, [Check AtStart True]), g)
         else prepend [Check AtStart False,
                       Emit (Progress (''Loading '' @ model_name self @ '' model (first time downloads)...'') 5)]
           (case acquire_model E self g of
              ((Raise e, trl), g1) \<Rightarrow> ((Raise e, trl), g1)
            | ((Return, trl), g1) \<Rightarrow> ((Return, trl), g1)
            | ((Normal u, trl), g1) \<Rightarrow>
                prepend trl
                  (if cancelled E AfterLoad then ((Return, [Check AfterLoad True]), g1)
                   else prepend [Check AfterLoad False,
                                 Emit (Progress ''Model loaded successfully.'' 10),
                                 Emit (Progress ''Transcribing audio... This may take several minutes.'' 20)]
                     (case transcribe E of
                        Inl e \<Rightarrow> ((Raise e, [Transcribe (file_path self) ''en'' ''transcribe'']), g1)
                      | Inr result \<Rightarrow>
                          prepend [Transcribe (file_path self) ''en'' ''transcribe'']
                            (if cancelled E AfterTranscribe then ((Return, [Check AfterTranscribe True]), g1)
                             else prepend [Check AfterTranscribe False,
                                           Emit (Progress ''Transcription complete. Writing output files...'' 80)]
                                    (write_outputs E self result g1))))))"
  unfolding run_body_def andthen_import andthen_check andthen_emit andthen_transcribe
  by (simp add: andthen_def prepend_def split: option.splits prod.splits outcome.splits sum.splits)

lemma consistent_simps [simp]:
  "consistent E []"
  "consistent E (xs @ ys) \<longleftrightarrow> consistent E xs \<and> consistent E ys"
  "consistent E (Check cp b # xs) \<longleftrightarrow> b = cancelled E cp \<and> consistent E xs"
  "consistent E (Emit ev # xs) \<longleftrightarrow> consistent E xs"
  "consistent E (LoadModel n v # xs) \<longleftrightarrow> consistent E xs"
  "consistent E (Transcribe f l t # xs) \<longleftrightarrow> consistent E xs"
  "consistent E (WriteFile pa co # xs) \<longleftrightarrow> consistent E xs"
  by (auto simp: consistent_def)

lemma ended_prepend: "quiet pre \<Longrightarrow> ended tr \<Longrightarrow> ended (pre @ tr)"
proof -
  assume q: "quiet pre" and "ended tr"
  then obtain p x where "tr = p @ [x]" "quiet p" "is_terminal x \<or> (\<exists>cp. x = Check cp True)"
    by (auto simp: ended_def)
  then have "pre @ tr = (pre @ p) @ [x] \<and> quiet (pre @ p) \<and> (is_terminal x \<or> (\<exists>cp. x = Check cp True))"
    using q by simp
  then show ?thesis unfolding ended_def by blast
qed

lemma ended_snoc: "quiet pre \<Longrightarrow> is_terminal x \<or> (\<exists>cp. x = Check cp True) \<Longrightarrow> ended (pre @ [x])"
  unfolding ended_def by blast

lemma ended_single: "is_terminal x \<or> (\<exists>cp. x = Check cp True) \<Longrightarrow> ended [x]"
  using ended_snoc[of "[]" x] by simp

lemma body_shaped_prepend:
  "body_shaped E (fst r) \<Longrightarrow> quiet pre \<Longrightarrow> consistent E pre \<Longrightarrow> body_shaped E (fst (prepend pre r))"
  by (cases r) (auto simp: body_shaped_def ended_prepend split: outcome.splits)

lemma shaped_iff:
  "shaped E r \<longleftrightarrow> consistent E (snd r)
     \<and> (case fst r of Return \<Rightarrow> (\<exists>pre cp. snd r = pre @ [Check cp True] \<and> quiet pre) | _ \<Rightarrow> quiet (snd r))"
  by (simp add: shaped_def consistent_def)

lemma finish_ended: "quiet tr \<Longrightarrow> ended (tr @ finish E cf)"
proof (cases "cancelled E BeforeFinish")
  case True
  assume "quiet tr"
  then show ?thesis using True ended_snoc[of tr "Check BeforeFinish True"]
    by (simp add: finish_def)
next
  case False
  assume "quiet tr"
  then have "quiet (tr @ [Check BeforeFinish False])" by simp
  then have "ended ((tr @ [Check BeforeFinish False]) @ [Emit (Finished cf)])"
    by (rule ended_snoc) (simp add: is_terminal_def)
  then show ?thesis using False by (simp add: finish_def)
qed

lemma finish_consistent: "consistent E (finish E cf)"
  by (simp add: finish_def)

lemma write_outputs_state: "snd (write_outputs E self result g) = g"
  using export_all_state[of E self result "path_stem E (file_path self)" "per_format_of self"
      "exporters E self" "([], 80)" g]
  by (auto simp: write_outputs_eq split: prod.splits outcome.splits)

lemma write_outputs_shaped: "body_shaped E (fst (write_outputs E self result g))"
proof -
  let ?r = "export_all E self result (path_stem E (file_path self)) (per_format_of self)
             (exporters E self) ([], 80) g"
  obtain oc tr g' where r: "?r = ((oc, tr), g')" by (metis prod.exhaust)
  have sh: "shaped E (oc, tr)" using export_all_shaped[of E self result _ _ _ _ g] r
    by (metis fst_conv)
  show ?thesis
  proof (cases oc)
    case (Normal st)
    obtain cf cp where st: "st = (cf, cp)" by (cases st)
    have "quiet tr" "consistent E tr" using sh Normal by (auto simp: shaped_iff)
    then show ?thesis using r Normal st finish_ended[of tr E cf] finish_consistent[of E cf]
      by (simp add: write_outputs_eq body_shaped_def)
  next
    case Return
    then obtain pre cp where "tr = pre @ [Check cp True]" "quiet pre" "consistent E tr"
      using sh by (auto simp: shaped_iff)
    then show ?thesis using r Return ended_snoc[of pre "Check cp True"]
      by (simp add: write_outputs_eq body_shaped_def)
  next
    case (Raise e)
    then show ?thesis using r sh by (simp add: write_outputs_eq body_shaped_def shaped_iff)
  qed
qed

lemma acquire_model_facts:
  "fst (fst (acquire_model E self g)) \<noteq> Return"
  "quiet (snd (fst (acquire_model E self g)))"
  "consistent E (snd (fst (acquire_model E self g)))"
  "percentages (snd (fst (acquire_model E self g))) = []"
  "written (snd (fst (acquire_model E self g))) = []"
  "filter is_transcribe (snd (fst (acquire_model E self g))) = []"
  "events (snd (fst (acquire_model E self g))) = []"
  by (simp_all add: acquire_model_def Let_def events_def split: option.splits exn.splits)

lemma run_body_shaped: "body_shaped E (fst (run_body E self g))"
proof (cases "import_whisper E")
  case (Some e)
  then show ?thesis by (simp add: run_body_eq body_shaped_def)
next
  case None
  show ?thesis
  proof (cases "cancelled E AtStart")
    case True
    then show ?thesis using None ended_single[of "Check AtStart True"]
      by (simp add: run_body_eq body_shaped_def)
  next
    case c0: False
    obtain oc trl g1 where a: "acquire_model E self g = ((oc, trl), g1)" by (metis prod.exhaust)
    have af: "oc \<noteq> Return" "quiet trl" "consistent E trl"
      using acquire_model_facts(1-3)[of E self g] a by simp_all
    let ?P5 = "[Check AtStart False,
                Emit (Progress (''Loading '' @ model_name self @ '' model (first time downloads)...'') 5)]"
    have p5: "quiet ?P5" "consistent E ?P5" using c0 by simp_all
    show ?thesis
    proof (cases oc)
      case Return
      then show ?thesis using af by simp
    next
      case (Raise e)
      then show ?thesis using None c0 a af
        by (simp add: run_body_eq body_shaped_def)
    next
      case (Normal u)
      show ?thesis
      proof (cases "cancelled E AfterLoad")
        case True
        have "ended (trl @ [Check AfterLoad True])" using af by (intro ended_snoc) auto
        then have "ended (?P5 @ trl @ [Check AfterLoad True])" by (rule ended_prepend[OF p5(1)])
        then show ?thesis using None c0 a af Normal True
          by (simp add: run_body_eq body_shaped_def)
      next
        case c1: False
        let ?P20 = "[Check AfterLoad False,
                     Emit (Progress ''Model loaded successfully.'' 10),
                     Emit (Progress ''Transcribing audio... This may take several minutes.'' 20)]"
        show ?thesis
        proof (cases "transcribe E")
          case (Inl e)
          then show ?thesis using None c0 a af Normal c1
            by (simp add: run_body_eq body_shaped_def)
        next
          case (Inr result)
          let ?T = "Transcribe (file_path self) ''en'' ''transcribe''"
          show ?thesis
          proof (cases "cancelled E AfterTranscribe")
            case True
            have "quiet (?P5 @ trl @ ?P20 @ [?T])" using af c0 c1 by simp
            then have "ended ((?P5 @ trl @ ?P20 @ [?T]) @ [Check AfterTranscribe True])"
              by (intro ended_snoc) auto
            then show ?thesis using None c0 a af Normal c1 Inr True
              by (simp add: run_body_eq body_shaped_def)
          next
            case c2: False
            let ?pre = "?P5 @ trl @ ?P20 @ [?T, Check AfterTranscribe False,
                          Emit (Progress ''Transcription complete. Writing output files...'' 80)]"
            have q: "quiet ?pre" "consistent E ?pre" using af c0 c1 c2 by simp_all
            have "body_shaped E (fst (prepend ?pre (write_outputs E self result g1)))"
              using write_outputs_shaped q by (rule body_shaped_prepend)
            moreover have "run_body E self g = prepend ?pre (write_outputs E self result g1)"
              using None c0 a Normal c1 Inr c2 by (simp add: run_body_eq prepend_def)
            ultimately show ?thesis by simp
          qed
        qed
      qed
    qed
  qed
qed

lemma handle_ended: "quiet tr \<Longrightarrow> ended (tr @ handle E e)"
proof (cases "cancelled E InHandler")
  case True
  assume "quiet tr"
  then show ?thesis using True ended_snoc[of tr "Check InHandler True"]
    by (simp add: handle_def)
next
  case False
  assume "quiet tr"
  then have "quiet (tr @ [Check InHandler False])" by simp
  then have "ended ((tr @ [Check InHandler False]) @ [Emit (Error (error_message e))])"
    by (rule ended_snoc) (simp add: is_terminal_def)
  then show ?thesis using False by (simp add: handle_def)
qed

lemma run_shape: "ended (fst (run E self g)) \<and> consistent E (fst (run E self g))"
proof -
  obtain oc tr g' where r: "run_body E self g = ((oc, tr), g')" by (metis prod.exhaust)
  have sh: "body_shaped E (oc, tr)" using run_body_shaped[of E self g] r by simp
  show ?thesis
  proof (cases oc)
    case (Raise e)
    then show ?thesis using r sh handle_ended[of tr E e]
      by (simp add: run_def body_shaped_def handle_def)
  qed (use r sh in \<open>simp_all add: run_def body_shaped_def\<close>)
qed

lemma loads_finish [simp]: "loads (finish E cf) = []"
  by (simp add: finish_def)

lemma loads_handle [simp]: "loads (handle E e) = []"
  by (simp add: handle_def)

lemma write_outputs_loads: "loads (snd (fst (write_outputs E self result g))) = []"
  using export_all_other[of E self result "path_stem E (file_path self)" "per_format_of self"
      "exporters E self" "([], 80)" g]
  by (auto simp: write_outputs_eq split: prod.splits outcome.splits)

lemma loads_acquire: "loads (snd (fst (acquire_model E self g))) = snd (fst (acquire_model E self g))"
  by (simp add: acquire_model_def Let_def split: option.splits exn.splits)

lemma run_body_after_acquire:
  assumes "import_whisper E = None" "\<not> cancelled E AtStart"
  shows "loads (snd (fst (run_body E self g))) = snd (fst (acquire_model E self g))
       \<and> snd (run_body E self g) = snd (acquire_model E self g)
       \<and> (\<forall>e. fst (fst (acquire_model E self g)) = Raise e \<longrightarrow>
            fst (run_body E self g)
              = (Raise e, [Check AtStart False,
                  Emit (Progress (''Loading '' @ model_name self @ '' model (first time downloads)...'') 5)]
                 @ snd (fst (acquire_model E self g))))"
proof -
  obtain oc trl g1 where a: "acquire_model E self g = ((oc, trl), g1)" by (metis prod.exhaust)
  have l: "loads trl = trl" using loads_acquire[of E self g] a by simp
  show ?thesis
  proof (cases oc)
    case (Normal u)
    then show ?thesis using assms a l
      by (auto simp add: run_body_eq write_outputs_loads write_outputs_state split: sum.splits)
  qed (use assms a l in \<open>simp_all add: run_body_eq\<close>)
qed

lemma run_after_acquire:
  assumes "import_whisper E = None" "\<not> cancelled E AtStart"
  shows "loads (fst (run E self g)) = snd (fst (acquire_model E self g))
       \<and> snd (run E self g) = snd (acquire_model E self g)
       \<and> (\<forall>e. fst (fst (acquire_model E self g)) = Raise e \<longrightarrow>
            fst (run E self g)
              = [Check AtStart False,
                 Emit (Progress (''Loading '' @ model_name self @ '' model (first time downloads)...'') 5)]
                @ snd (fst (acquire_model E self g)) @ handle E e)"
proof -
  obtain oc tr g' where r: "run_body E self g = ((oc, tr), g')" by (metis prod.exhaust)
  show ?thesis using run_body_after_acquire[OF assms, of self g] r
    by (cases oc) (auto simp: run_def)
qed

lemma events_simps [simp]:
  "events [] = []"
  "events (xs @ ys) = events xs @ events ys"
  "events (Emit ev # xs) = ev # events xs"
  "events (Check c b # xs) = events xs"
  "events (LoadModel n v # xs) = events xs"
  "events (Transcribe f l t # xs) = events xs"
  "events (WriteFile pa co # xs) = events xs"
  by (simp_all add: events_def)

lemma events_handle:
  "events (handle E e) = (if cancelled E InHandler then [] else [Error (error_message e)])"
  by (simp add: handle_def)

text \<open>
  Claim C1, amended. In a job that reaches the model load, a certificate-trust failure of
  the first load is followed by exactly one more load, made with certificate verification
  switched off for the whole process, and the switch stays off when the job is over; a
  failure of that second load, of whatever kind, is not retried and gives exactly one
  \<open>Error\<close> event (none when the flag is read as set in the handler). Any other failure of
  the first load is not retried, leaves the process as it was and gives exactly one
  \<open>Error\<close> event under the same proviso; a load that succeeds is the only one.
\<close>

theorem model_load_retry:
  assumes "import_whisper E = None" and "\<not> cancelled E AtStart"
  shows "case load_model E 0 (https_verified g) of
           None \<Rightarrow>
             loads (fst (run E self g)) = [LoadModel (model_name self) (https_verified g)]
             \<and> snd (run E self g) = g
         | Some e \<Rightarrow>
             if cert_failure e then
               loads (fst (run E self g))
                 = [LoadModel (model_name self) (https_verified g), LoadModel (model_name self) False]
               \<and> snd (run E self g) = g\<lparr>https_verified := False\<rparr>
               \<and> (case load_model E 1 False of
                     None \<Rightarrow> True
                   | Some e' \<Rightarrow>
                       events (fst (run E self g))
                         = Progress (''Loading '' @ model_name self @ '' model (first time downloads)...'') 5
                           # (if cancelled E InHandler then [] else [Error (error_message e')]))
             else
               loads (fst (run E self g)) = [LoadModel (model_name self) (https_verified g)]
               \<and> snd (run E self g) = g
               \<and> events (fst (run E self g))
                    = Progress (''Loading '' @ model_name self @ '' model (first time downloads)...'') 5
                      # (if cancelled E InHandler then [] else [Error (error_message e)])"
  using run_after_acquire[OF assms, of self g]
  by (auto simp add: acquire_model_def cert_failure_def Let_def events_handle
      split: option.splits exn.splits)

text \<open>The statement of C1 where the download fails the certificate check twice.\<close>

theorem model_load_retry_witness:
  "import_whisper unreachable_env = None \<and> \<not> cancelled unreachable_env AtStart
   \<and> load_model unreachable_env 0 (https_verified verified) = Some (URLError cert_message)
   \<and> load_model unreachable_env 1 False = Some (URLError cert_message)
   \<and> loads (fst (run unreachable_env example_job verified))
       = [LoadModel ''base'' True, LoadModel ''base'' False]
   \<and> snd (run unreachable_env example_job verified) = \<lparr>https_verified = False\<rparr>
   \<and> events (fst (run unreachable_env example_job verified))
       = [Progress ''Loading base model (first time downloads)...'' 5, Error cert_message]"
proof -
  have h1: "import_whisper unreachable_env = None"
    and h2: "\<not> cancelled unreachable_env AtStart"
    and h3: "\<not> cancelled unreachable_env InHandler"
    and l0: "load_model unreachable_env 0 (https_verified verified) = Some (URLError cert_message)"
    and l1: "load_model unreachable_env 1 False = Some (URLError cert_message)"
    by (simp_all add: unreachable_env_def example_env_def)
  have cf: "cert_failure (URLError cert_message)" by code_simp
  have m: "model_name example_job = ''base''" by (simp add: example_job_def)
  have v: "https_verified verified" "verified\<lparr>https_verified := False\<rparr> = \<lparr>https_verified = False\<rparr>"
    by (simp_all add: verified_def)
  have e: "error_message (URLError cert_message) = cert_message" by (simp add: error_message_def)
  note t = model_load_retry[OF h1 h2, of example_job verified]
  have c: "loads (fst (run unreachable_env example_job verified))
       = [LoadModel (model_name example_job) (https_verified verified),
          LoadModel (model_name example_job) False]
     \<and> snd (run unreachable_env example_job verified) = verified\<lparr>https_verified := False\<rparr>
     \<and> events (fst (run unreachable_env example_job verified))
         = Progress (''Loading '' @ model_name example_job @ '' model (first time downloads)...'') 5
           # (if cancelled unreachable_env InHandler then []
              else [Error (error_message (URLError cert_message))])"
    using t unfolding l0 l1 by (simp only: option.case cf if_True)
  show ?thesis using c h1 h2 h3 l0 l1 by (simp add: m v e)
qed

text \<open>
  Against C1 as stated: after a job whose first load failed the certificate check and whose
  retry succeeded, verification is still switched off, and the next job of the process,
  in which nothing fails, makes its only load without certificate verification.
\<close>

theorem model_load_retry_counterexample:
  "cert_failure (URLError cert_message)
   \<and> https_verified verified
   \<and> loads (fst (run untrusted_env example_job verified))
       = [LoadModel ''base'' True, LoadModel ''base'' False]
   \<and> \<not> https_verified (snd (run untrusted_env example_job verified))
   \<and> loads (fst (run example_env example_job (snd (run untrusted_env example_job verified))))
       = [LoadModel ''base'' False]"
  by code_simp

lemma exporters_keys: "map fst (exporters E self) = canonical_order"
  by (simp add: exporters_def canonical_order_def)

lemma quiet_no_finished: "quiet tr \<Longrightarrow> Emit (Finished fs) \<notin> set tr"
  by (auto simp: quiet_def is_terminal_def)

lemma run_body_cases:
  "(written (snd (fst (run_body E self g))) = []
      \<and> percentages (snd (fst (run_body E self g))) \<in> {[], [5], [5, 10, 20]}
      \<and> (\<forall>fs. Emit (Finished fs) \<notin> set (snd (fst (run_body E self g)))))
   \<or> (\<exists>pre result g1.
         run_body E self g = prepend pre (write_outputs E self result g1)
         \<and> percentages pre = [5, 10, 20, 80] \<and> written pre = [] \<and> quiet pre
         \<and> transcribe E = Inr result)"
proof (cases "import_whisper E")
  case (Some e)
  then show ?thesis by (simp add: run_body_eq)
next
  case None
  show ?thesis
  proof (cases "cancelled E AtStart")
    case True
    then show ?thesis using None by (simp add: run_body_eq)
  next
    case c0: False
    obtain oc trl g1 where a: "acquire_model E self g = ((oc, trl), g1)" by (metis prod.exhaust)
    have af: "oc \<noteq> Return" "quiet trl" "percentages trl = []" "written trl = []"
      using acquire_model_facts(1,2,4,5)[of E self g] a by simp_all
    have nf: "Emit (Finished fs) \<notin> set trl" for fs using af(2) by (rule quiet_no_finished)
    show ?thesis
    proof (cases oc)
      case Return
      then show ?thesis using af by simp
    next
      case (Raise e)
      then show ?thesis using None c0 a af nf by (simp add: run_body_eq)
    next
      case (Normal u)
      show ?thesis
      proof (cases "cancelled E AfterLoad")
        case True
        then show ?thesis using None c0 a af nf Normal by (simp add: run_body_eq)
      next
        case c1: False
        show ?thesis
        proof (cases "transcribe E")
          case (Inl e)
          then show ?thesis using None c0 a af nf Normal c1 by (simp add: run_body_eq)
        next
          case (Inr result)
          show ?thesis
          proof (cases "cancelled E AfterTranscribe")
            case True
            then show ?thesis using None c0 a af nf Normal c1 Inr by (simp add: run_body_eq)
          next
            case c2: False
            let ?pre = "[Check AtStart False,
                Emit (Progress (''Loading '' @ model_name self @ '' model (first time downloads)...'') 5)]
              @ trl @ [Check AfterLoad False,
                     Emit (Progress ''Model loaded successfully.'' 10),
                     Emit (Progress ''Transcribing audio... This may take several minutes.'' 20)]
              @ [Transcribe (file_path self) ''en'' ''transcribe'', Check AfterTranscribe False,
                          Emit (Progress ''Transcription complete. Writing output files...'' 80)]"
            have "run_body E self g = prepend ?pre (write_outputs E self result g1)"
              using None c0 a Normal c1 Inr c2 by (simp add: run_body_eq prepend_def)
            moreover have "percentages ?pre = [5, 10, 20, 80]" "written ?pre = []" "quiet ?pre"
              using af by simp_all
            ultimately show ?thesis using Inr by blast
          qed
        qed
      qed
    qed
  qed
qed

lemma requested_count:
  "length (filter (\<lambda>b. fst b \<in> set (output_formats self)) (exporters E self))
     \<le> length (output_formats self)"
proof -
  let ?S = "set (output_formats self)"
  have "length (filter (\<lambda>b. fst b \<in> ?S) (exporters E self))
      = length (filter (\<lambda>f. f \<in> ?S) (map fst (exporters E self)))"
    by (simp add: filter_map comp_def)
  also have "\<dots> = length (filter (\<lambda>f. f \<in> ?S) canonical_order)"
    by (simp only: exporters_keys)
  also have "\<dots> = card (set (filter (\<lambda>f. f \<in> ?S) canonical_order))"
    by (rule distinct_card[symmetric]) (simp add: canonical_order_def)
  also have "\<dots> \<le> card ?S"
    by (rule card_mono) auto
  also have "\<dots> \<le> length (output_formats self)"
    by (rule card_length)
  finally show ?thesis .
qed

lemma per_format_nonneg: "0 \<le> per_format_of self"
  by (simp add: per_format_of_def)

lemma per_format_total:
  "80 + real (length (filter (\<lambda>b. fst b \<in> set (output_formats self)) (exporters E self)))
        * per_format_of self \<le> 95"
proof (cases "output_formats self = []")
  case True
  then show ?thesis by simp
next
  case False
  let ?k = "length (filter (\<lambda>b. fst b \<in> set (output_formats self)) (exporters E self))"
  let ?n = "length (output_formats self)"
  have n: "0 < real ?n" using False by simp
  have "real ?k \<le> real ?n" using requested_count[of self E] by simp
  then have "real ?k * (15 / real ?n) \<le> 15"
    using n by (simp add: field_simps)
  then show ?thesis using False by (simp add: per_format_of_def)
qed

lemma py_int_numeral [simp]: "py_int 80 = 80" "py_int 95 = 95"
  by (simp_all add: py_int_def)

lemma percentages_finish [simp]: "percentages (finish E cf) = []"
  by (simp add: finish_def)

lemma written_finish [simp]: "written (finish E cf) = []"
  by (simp add: finish_def)

lemma percentages_handle [simp]: "percentages (handle E e) = []"
  by (simp add: handle_def)

lemma written_handle [simp]: "written (handle E e) = []"
  by (simp add: handle_def)

lemma write_outputs_percentages:
  "sorted (percentages (snd (fst (write_outputs E self result g))))
   \<and> (\<forall>q \<in> set (percentages (snd (fst (write_outputs E self result g)))). 80 \<le> q \<and> q \<le> 95)"
proof -
  let ?r = "export_all E self result (path_stem E (file_path self)) (per_format_of self)
             (exporters E self) ([], 80) g"
  let ?k = "real (length (filter (\<lambda>b. fst b \<in> set (output_formats self)) (exporters E self)))"
  have p: "percentages (snd (fst (write_outputs E self result g))) = percentages (snd (fst ?r))"
    by (auto simp: write_outputs_eq split: prod.splits outcome.splits)
  have e: "sorted (percentages (snd (fst ?r)))
       \<and> (\<forall>q \<in> set (percentages (snd (fst ?r))). py_int 80 \<le> q
             \<and> q \<le> py_int (80 + ?k * per_format_of self))"
    by (rule export_all_percentages) (simp_all add: per_format_nonneg)
  have "0 \<le> ?k * per_format_of self" using per_format_nonneg[of self] by simp
  then have "py_int (80 + ?k * per_format_of self) \<le> py_int 95"
    using per_format_total[of self E] by (intro py_int_mono) auto
  then show ?thesis unfolding p using e by fastforce
qed

lemma run_percentages:
  "percentages (fst (run E self g)) \<in> {[], [5], [5, 10, 20]}
   \<or> (\<exists>qs. percentages (fst (run E self g)) = [5, 10, 20, 80] @ qs
          \<and> sorted qs \<and> (\<forall>q \<in> set qs. 80 \<le> q \<and> q \<le> 95))"
proof -
  obtain oc tr g' where r: "run_body E self g = ((oc, tr), g')" by (metis prod.exhaust)
  have p: "percentages (fst (run E self g)) = percentages tr"
    using r by (cases oc) (simp_all add: run_def)
  from run_body_cases[of E self g] show ?thesis
  proof
    assume "written (snd (fst (run_body E self g))) = []
      \<and> percentages (snd (fst (run_body E self g))) \<in> {[], [5], [5, 10, 20]}
      \<and> (\<forall>fs. Emit (Finished fs) \<notin> set (snd (fst (run_body E self g))))"
    then show ?thesis using p r by simp
  next
    assume "\<exists>pre result g1.
         run_body E self g = prepend pre (write_outputs E self result g1)
         \<and> percentages pre = [5, 10, 20, 80] \<and> written pre = [] \<and> quiet pre
         \<and> transcribe E = Inr result"
    then obtain pre result g1 where
      b: "run_body E self g = prepend pre (write_outputs E self result g1)"
      and pp: "percentages pre = [5, 10, 20, 80]" by blast
    have "percentages tr = [5, 10, 20, 80] @ percentages (snd (fst (write_outputs E self result g1)))"
      using b r pp by (metis percentages_simps(2) prepend_simps(3) fst_conv snd_conv)
    then show ?thesis using p write_outputs_percentages[of E self result g1] by auto
  qed
qed

lemma export_all_no_finished:
  "Emit (Finished fs) \<notin> set (snd (fst (export_all E self result base_path per_format blks st g)))"
proof -
  obtain oc tr g' where r: "export_all E self result base_path per_format blks st g = ((oc, tr), g')"
    by (metis prod.exhaust)
  have sh: "shaped E (oc, tr)" using export_all_shaped[of E self result base_path per_format blks st g] r
    by simp
  have "Emit (Finished fs) \<notin> set tr"
  proof (cases oc)
    case Return
    then obtain pre cp where "tr = pre @ [Check cp True]" "quiet pre" using sh by (auto simp: shaped_iff)
    then show ?thesis using quiet_no_finished[of pre fs] by simp
  qed (use sh quiet_no_finished[of tr fs] in \<open>simp_all add: shaped_iff\<close>)
  then show ?thesis using r by simp
qed

lemma write_outputs_finished:
  assumes "Emit (Finished fs) \<in> set (snd (fst (write_outputs E self result g)))"
  shows "\<exists>cp te. export_all E self result (path_stem E (file_path self)) (per_format_of self)
                    (exporters E self) ([], 80) g = ((Normal (fs, cp), te), g)
           \<and> fst (write_outputs E self result g)
               = (Normal (), te @ [Check BeforeFinish False, Emit (Finished fs)])"
proof -
  let ?r = "export_all E self result (path_stem E (file_path self)) (per_format_of self)
             (exporters E self) ([], 80) g"
  obtain oc te g' where r: "?r = ((oc, te), g')" by (metis prod.exhaust)
  have g': "g' = g" using export_all_state[of E self result _ _ _ _ g] r by (metis snd_conv)
  have nf: "Emit (Finished fs) \<notin> set te"
    using export_all_no_finished[of fs E self result _ _ _ _ g] r by (metis fst_conv snd_conv)
  show ?thesis
  proof (cases oc)
    case (Normal st)
    obtain cf cp where st: "st = (cf, cp)" by (cases st)
    have w: "fst (write_outputs E self result g) = (Normal (), te @ finish E cf)"
      using r Normal st by (simp add: write_outputs_eq)
    with assms nf have "Emit (Finished fs) \<in> set (finish E cf)" by simp
    then have "\<not> cancelled E BeforeFinish" "cf = fs"
      by (auto simp: finish_def split: if_splits)
    then show ?thesis using r Normal st g' w by (simp add: finish_def)
  next
    case Return
    then show ?thesis using assms nf r by (simp add: write_outputs_eq)
  next
    case (Raise e)
    then show ?thesis using assms nf r by (simp add: write_outputs_eq)
  qed
qed

lemma handle_no_finished: "Emit (Finished fs) \<notin> set (handle E e)"
  by (simp add: handle_def)

lemma run_finished:
  assumes "Emit (Finished fs) \<in> set (fst (run E self g))"
  shows "\<exists>pre result g1 cp te.
           fst (run E self g) = pre @ te @ [Check BeforeFinish False, Emit (Finished fs)]
         \<and> percentages pre = [5, 10, 20, 80] \<and> written pre = []
         \<and> export_all E self result (path_stem E (file_path self)) (per_format_of self)
              (exporters E self) ([], 80) g1 = ((Normal (fs, cp), te), g1)"
proof -
  obtain oc tr g' where r: "run_body E self g = ((oc, tr), g')" by (metis prod.exhaust)
  have "fst (run E self g) = tr \<or> (\<exists>e. fst (run E self g) = tr @ handle E e)"
    using r by (cases oc) (auto simp: run_def)
  then have f: "Emit (Finished fs) \<in> set tr" using assms handle_no_finished[of fs E] by auto
  from run_body_cases[of E self g] f r obtain pre result g1 where
    b: "run_body E self g = prepend pre (write_outputs E self result g1)"
    and pp: "percentages pre = [5, 10, 20, 80]" "written pre = []" "quiet pre"
    by auto
  have tr: "tr = pre @ snd (fst (write_outputs E self result g1))"
    and oc: "oc = fst (fst (write_outputs E self result g1))"
    using b r by (metis prepend_simps(3) fst_conv snd_conv, metis prepend_simps(2) fst_conv)
  have "Emit (Finished fs) \<in> set (snd (fst (write_outputs E self result g1)))"
    using f tr quiet_no_finished[OF pp(3), of fs] by simp
  from write_outputs_finished[OF this] obtain cp te where
    e: "export_all E self result (path_stem E (file_path self)) (per_format_of self)
                    (exporters E self) ([], 80) g1 = ((Normal (fs, cp), te), g1)"
    and w: "fst (write_outputs E self result g1)
               = (Normal (), te @ [Check BeforeFinish False, Emit (Finished fs)])"
    by blast
  have "fst (run E self g) = tr" using r oc w by (simp add: run_def)
  then have "fst (run E self g) = pre @ te @ [Check BeforeFinish False, Emit (Finished fs)]"
    using tr w by simp
  then show ?thesis using pp e by blast
qed

lemma upt_Suc_shift: "map f [0..<Suc k] = f 0 # map (\<lambda>i. f (Suc i)) [0..<k]"
  by (simp only: upt_conv_Cons[of 0 "Suc k"] map_Suc_upt[symmetric]) (simp add: comp_def)

lemma export_all_normal_percentages:
  "fst (fst (export_all E self result base_path per_format blks (cf, cp) g)) = Normal st'
   \<Longrightarrow> percentages (snd (fst (export_all E self result base_path per_format blks (cf, cp) g)))
       = map (\<lambda>i. py_int (cp + real (Suc i) * per_format))
             [0..<length (requested self (map fst blks))]"
proof (induction blks arbitrary: cf cp g)
  case Nil
  show ?case by (simp add: requested_def)
next
  case (Cons blk blks)
  obtain fmt writer where blk: "blk = (fmt, writer)" by (cases blk)
  show ?case
  proof (cases "fmt \<in> set (output_formats self)")
    case False
    then show ?thesis using Cons.IH[of cf cp g] Cons.prems unfolding blk export_all_Cons
      by (simp add: requested_def)
  next
    case True
    let ?cf = "cf @ [path_str E (export_path self base_path fmt)]"
    obtain oc tr g' where r: "export_all E self result base_path per_format blks
              (?cf, cp + per_format) g = ((oc, tr), g')"
      by (metis prod.exhaust)
    from Cons.prems True r have ok: "\<not> cancelled E (BeforeWrite fmt)"
      "open_write E (export_path self base_path fmt) = None" "oc = Normal st'"
      unfolding blk export_all_Cons by (auto split: if_splits option.splits)
    have ih: "percentages tr = map (\<lambda>i. py_int (cp + per_format + real (Suc i) * per_format))
             [0..<length (requested self (map fst blks))]"
      using Cons.IH[of ?cf "cp + per_format" g] r ok(3) by simp
    have k: "length (requested self (map fst (blk # blks))) = Suc (length (requested self (map fst blks)))"
      using True by (simp add: blk requested_def)
    have "percentages (snd (fst (export_all E self result base_path per_format (blk # blks) (cf, cp) g)))
        = py_int (cp + per_format) # percentages tr"
      unfolding blk export_all_Cons using True ok r by simp
    also have "\<dots> = map (\<lambda>i. py_int (cp + real (Suc i) * per_format))
             [0..<Suc (length (requested self (map fst blks)))]"
      unfolding ih upt_Suc_shift by (simp add: algebra_simps)
    finally show ?thesis unfolding k .
  qed
qed

lemma requested_single:
  assumes "output_formats self = [fmt]" "fmt \<in> set canonical_order"
  shows "requested self canonical_order = [fmt]"
  using assms by (auto simp: requested_def canonical_order_def)

lemma single_format_percentages:
  assumes "output_formats self = [fmt]" "fmt \<in> set canonical_order"
    and "export_all E self result base_path per_format (exporters E self) ([], 80) g
           = ((Normal (cf, cp), te), g')"
  shows "percentages te = [py_int (80 + per_format)]"
  using export_all_normal_percentages[of E self result base_path per_format "exporters E self"
      "[]" 80 g "(cf, cp)"] assms(3) requested_single[OF assms(1,2)]
  by (simp add: exporters_keys)

text \<open>
  Claim C2. In every job the percentages of the \<open>Progress\<close> events, in the order of
  emission, are non-decreasing and lie between 0 and 100; when the one requested format is
  one of the six supported ones and the job emits \<open>Finished\<close>, the percentages are
  5, 10, 20, 80, 95 and \<open>Finished\<close> is the last action, so the last \<open>Progress\<close> before it
  carries 95.
\<close>

theorem progress_monotone_bounded:
  "sorted (percentages (fst (run E self g)))
   \<and> (\<forall>p \<in> set (percentages (fst (run E self g))). 0 \<le> p \<and> p \<le> 100)
   \<and> (output_formats self = [fmt] \<and> fmt \<in> set canonical_order
        \<and> Emit (Finished fs) \<in> set (fst (run E self g))
      \<longrightarrow> percentages (fst (run E self g)) = [5, 10, 20, 80, 95]
          \<and> last (fst (run E self g)) = Emit (Finished fs))"
proof -
  have a: "sorted (percentages (fst (run E self g)))
      \<and> (\<forall>p \<in> set (percentages (fst (run E self g))). 0 \<le> p \<and> p \<le> 100)"
  proof -
    from run_percentages[of E self g] consider
      "percentages (fst (run E self g)) \<in> {[], [5], [5, 10, 20]}"
      | qs where "percentages (fst (run E self g)) = [5, 10, 20, 80] @ qs"
          "sorted qs" "\<forall>q \<in> set qs. 80 \<le> q \<and> q \<le> 95"
      by blast
    then show ?thesis
    proof cases
      case 1
      then show ?thesis by auto
    next
      case 2
      have "80 \<le> q \<and> q \<le> 95" if "q \<in> set qs" for q using 2(3) that by blast
      then have "5 \<le> q \<and> 10 \<le> q \<and> 20 \<le> q \<and> 80 \<le> q \<and> 0 \<le> q \<and> q \<le> 100"
        if "q \<in> set qs" for q using that by force
      then show ?thesis unfolding 2(1) using 2(2) by auto
    qed
  qed
  have b: "percentages (fst (run E self g)) = [5, 10, 20, 80, 95]
          \<and> last (fst (run E self g)) = Emit (Finished fs)"
    if one: "output_formats self = [fmt]" "fmt \<in> set canonical_order"
      and fin: "Emit (Finished fs) \<in> set (fst (run E self g))"
  proof -
    from run_finished[OF fin] obtain pre result g1 cp te where
      tr: "fst (run E self g) = pre @ te @ [Check BeforeFinish False, Emit (Finished fs)]"
      and pp: "percentages pre = [5, 10, 20, 80]"
      and e: "export_all E self result (path_stem E (file_path self)) (per_format_of self)
              (exporters E self) ([], 80) g1 = ((Normal (fs, cp), te), g1)"
      by blast
    have "per_format_of self = 15" using one(1) by (simp add: per_format_of_def)
    then have "percentages te = [95]"
      using single_format_percentages[OF one e] by simp
    then show ?thesis using tr pp by simp
  qed
  show ?thesis using a b by blast
qed

text \<open>The statement of C2 for the example job, which requests the plain text format.\<close>

theorem progress_monotone_bounded_witness:
  "output_formats example_job = [''txt''] \<and> ''txt'' \<in> set canonical_order
   \<and> Emit (Finished [''in/talk_transcript.txt'']) \<in> set (fst (run example_env example_job verified))
   \<and> sorted (percentages (fst (run example_env example_job verified)))
   \<and> percentages (fst (run example_env example_job verified)) = [5, 10, 20, 80, 95]
   \<and> last (fst (run example_env example_job verified)) = Emit (Finished [''in/talk_transcript.txt''])"
proof -
  have h1: "output_formats example_job = [''txt'']" by (simp add: example_job_def)
  have h2: "''txt'' \<in> set canonical_order" by (simp add: canonical_order_def)
  have h3: "Emit (Finished [''in/talk_transcript.txt'']) \<in> set (fst (run example_env example_job verified))"
    by code_simp
  show ?thesis
    using progress_monotone_bounded[of example_env example_job verified "''txt''"
        "[''in/talk_transcript.txt'']"] h1 h2 h3
    by blast
qed

text \<open>
  Claim C8. The files a job writes are, in this order, a prefix of the artifacts of the
  requested formats taken in the canonical order, each named
  \<open><stem>_transcript.<extension>\<close> in the destination directory; a job that emits
  \<open>Finished\<close> has written all of them and reports them in that order. The list depends on
  the set of requested formats only, not on the order of the request.
\<close>

theorem outputs_canonical_order:
  "prefix (written (fst (run E self g)))
          (map (export_path self (path_stem E (file_path self))) (requested self canonical_order))
   \<and> (Emit (Finished fs) \<in> set (fst (run E self g)) \<longrightarrow>
        written (fst (run E self g))
          = map (export_path self (path_stem E (file_path self))) (requested self canonical_order)
        \<and> fs = map (path_str E)
                 (map (export_path self (path_stem E (file_path self))) (requested self canonical_order)))
   \<and> (set (output_formats self') = set (output_formats self) \<longrightarrow>
        requested self' canonical_order = requested self canonical_order)"
proof -
  let ?full = "map (export_path self (path_stem E (file_path self))) (requested self canonical_order)"
  obtain oc tr g' where r: "run_body E self g = ((oc, tr), g')" by (metis prod.exhaust)
  have w: "written (fst (run E self g)) = written tr"
    using r by (cases oc) (simp_all add: run_def)
  have a: "prefix (written (fst (run E self g))) ?full"
    using run_body_cases[of E self g]
  proof
    assume "written (snd (fst (run_body E self g))) = []
      \<and> percentages (snd (fst (run_body E self g))) \<in> {[], [5], [5, 10, 20]}
      \<and> (\<forall>fs. Emit (Finished fs) \<notin> set (snd (fst (run_body E self g))))"
    then show ?thesis using w r by simp
  next
    assume "\<exists>pre result g1.
         run_body E self g = prepend pre (write_outputs E self result g1)
         \<and> percentages pre = [5, 10, 20, 80] \<and> written pre = [] \<and> quiet pre
         \<and> transcribe E = Inr result"
    then obtain pre result g1 where
      b: "run_body E self g = prepend pre (write_outputs E self result g1)"
      and pp: "written pre = []" by blast
    let ?e = "export_all E self result (path_stem E (file_path self)) (per_format_of self)
             (exporters E self) ([], 80) g1"
    have "written tr = written (snd (fst (write_outputs E self result g1)))"
      using b r pp by (metis written_simps(2) prepend_simps(3) fst_conv snd_conv append_Nil)
    also have "\<dots> = written (snd (fst ?e))"
      by (auto simp: write_outputs_eq split: prod.splits outcome.splits)
    finally show ?thesis using w export_all_written[of E self result "path_stem E (file_path self)"
        "per_format_of self" "exporters E self" "[]" 80 g1]
      by (simp add: exporters_keys)
  qed
  have b: "written (fst (run E self g)) = ?full \<and> fs = map (path_str E) ?full"
    if fin: "Emit (Finished fs) \<in> set (fst (run E self g))"
  proof -
    from run_finished[OF fin] obtain pre result g1 cp te where
      tr: "fst (run E self g) = pre @ te @ [Check BeforeFinish False, Emit (Finished fs)]"
      and pp: "written pre = []"
      and e: "export_all E self result (path_stem E (file_path self)) (per_format_of self)
              (exporters E self) ([], 80) g1 = ((Normal (fs, cp), te), g1)"
      by blast
    show ?thesis
      using export_all_written[of E self result "path_stem E (file_path self)"
        "per_format_of self" "exporters E self" "[]" 80 g1] e tr pp
      by (simp add: exporters_keys)
  qed
  have c: "requested self' canonical_order = requested self canonical_order"
    if "set (output_formats self') = set (output_formats self)"
    using that by (simp add: requested_def)
  show ?thesis using a b c by blast
qed

text \<open>The statement of C8 for a job that requests \<open>json\<close>, \<open>srt\<close>, \<open>txt\<close> in this order.\<close>

theorem outputs_canonical_order_witness:
  "Emit (Finished [''in/talk_transcript.txt'', ''in/talk_transcript.srt'', ''in/talk_transcript.json''])
     \<in> set (fst (run example_env unordered_job verified))
   \<and> output_formats unordered_job = [''json'', ''srt'', ''txt'']
   \<and> written (fst (run example_env unordered_job verified))
       = [\<lparr>parent = ''in'', name = ''talk_transcript.txt''\<rparr>,
          \<lparr>parent = ''in'', name = ''talk_transcript.srt''\<rparr>,
          \<lparr>parent = ''in'', name = ''talk_transcript.json''\<rparr>]"
proof -
  have h: "Emit (Finished [''in/talk_transcript.txt'', ''in/talk_transcript.srt'', ''in/talk_transcript.json''])
     \<in> set (fst (run example_env unordered_job verified))"
    by code_simp
  have f: "output_formats unordered_job = [''json'', ''srt'', ''txt'']"
    by (simp add: unordered_job_def)
  have e: "map (export_path unordered_job (path_stem example_env (file_path unordered_job)))
             (requested unordered_job canonical_order)
       = [\<lparr>parent = ''in'', name = ''talk_transcript.txt''\<rparr>,
          \<lparr>parent = ''in'', name = ''talk_transcript.srt''\<rparr>,
          \<lparr>parent = ''in'', name = ''talk_transcript.json''\<rparr>]"
    by code_simp
  show ?thesis
    using outputs_canonical_order[of example_env unordered_job verified
        "[''in/talk_transcript.txt'', ''in/talk_transcript.srt'', ''in/talk_transcript.json'']"] h f
    unfolding e by blast
qed

lemma export_all_none:
  "output_formats self = [] \<Longrightarrow>
   export_all E self result base_path per_format blks st g = ((Normal st, []), g)"
proof (induction blks)
  case Nil
  show ?case by simp
next
  case (Cons blk blks)
  obtain fmt writer where blk: "blk = (fmt, writer)" by (cases blk)
  obtain cf cp where st: "st = (cf, cp)" by (cases st)
  show ?case unfolding blk st export_all_Cons using Cons by (simp add: st)
qed

text \<open>
  Claim C10. The increment computation never raises: it yields a number for every count of
  formats, and 15 for none. A job with no requested format in which the imports, the model
  load and the transcription succeed and the flag is never read as set emits the four
  \<open>Progress\<close> events and then \<open>Finished\<close> with the empty list.
\<close>

theorem empty_formats_complete:
  assumes "output_formats self = []"
    and "import_whisper E = None"
    and "\<not> cancelled E AtStart" and "\<not> cancelled E AfterLoad"
    and "\<not> cancelled E AfterTranscribe" and "\<not> cancelled E BeforeFinish"
    and "fst (fst (acquire_model E self g)) = Normal ()"
    and "transcribe E = Inr result"
  shows "progress_per_format (length (output_formats self)) = Inr 15
       \<and> (\<forall>n. \<exists>p. progress_per_format n = Inr p)
       \<and> events (fst (run E self g))
           = [Progress (''Loading '' @ model_name self @ '' model (first time downloads)...'') 5,
              Progress ''Model loaded successfully.'' 10,
              Progress ''Transcribing audio... This may take several minutes.'' 20,
              Progress ''Transcription complete. Writing output files...'' 80,
              Finished []]"
proof -
  obtain trl g1 where a: "acquire_model E self g = ((Normal (), trl), g1)"
    using assms(7) by (metis prod.exhaust fst_conv)
  have ev: "events trl = []" using acquire_model_facts(7)[of E self g] a by simp
  have w: "write_outputs E self result g1 = ((Normal (), finish E []), g1)"
    using assms(1) by (simp add: write_outputs_eq export_all_none)
  have "events (fst (run E self g))
           = [Progress (''Loading '' @ model_name self @ '' model (first time downloads)...'') 5,
              Progress ''Model loaded successfully.'' 10,
              Progress ''Transcribing audio... This may take several minutes.'' 20,
              Progress ''Transcription complete. Writing output files...'' 80,
              Finished []]"
    using assms(2-6,8) a ev w by (simp add: run_def run_body_eq finish_def)
  then show ?thesis using assms(1) by (simp add: progress_per_format_eq)
qed

text \<open>The statement of C10 for the example job with its formats removed.\<close>

theorem empty_formats_complete_witness:
  "output_formats empty_job = [] \<and> import_whisper example_env = None
   \<and> \<not> cancelled example_env AtStart \<and> \<not> cancelled example_env AfterLoad
   \<and> \<not> cancelled example_env AfterTranscribe \<and> \<not> cancelled example_env BeforeFinish
   \<and> fst (fst (acquire_model example_env empty_job verified)) = Normal ()
   \<and> transcribe example_env = Inr example_result
   \<and> progress_per_format (length (output_formats empty_job)) = Inr 15
   \<and> events (fst (run example_env empty_job verified))
       = [Progress ''Loading base model (first time downloads)...'' 5,
          Progress ''Model loaded successfully.'' 10,
          Progress ''Transcribing audio... This may take several minutes.'' 20,
          Progress ''Transcription complete. Writing output files...'' 80,
          Finished []]"
proof -
  have h1: "output_formats empty_job = []" by (simp add: empty_job_def)
  have h2: "import_whisper example_env = None"
    and h3: "\<not> cancelled example_env AtStart" and h4: "\<not> cancelled example_env AfterLoad"
    and h5: "\<not> cancelled example_env AfterTranscribe" and h6: "\<not> cancelled example_env BeforeFinish"
    and h8: "transcribe example_env = Inr example_result"
    by (simp_all add: example_env_def)
  have h7: "fst (fst (acquire_model example_env empty_job verified)) = Normal ()"
    by (simp add: acquire_model_def example_env_def)
  have m: "model_name empty_job = ''base''" by (simp add: empty_job_def example_job_def)
  show ?thesis
    using empty_formats_complete[OF h1 h2 h3 h4 h5 h6 h7 h8]
    by (simp add: h1 h2 h3 h4 h5 h6 h7 h8 m)
qed

lemma run_no_transcribe:
  assumes "cancelled E AtStart \<or> cancelled E AfterLoad"
  shows "filter is_transcribe (fst (run E self g)) = []"
proof -
  obtain oc trl g1 where a: "acquire_model E self g = ((oc, trl), g1)" by (metis prod.exhaust)
  have af: "filter is_transcribe trl = []"
    using acquire_model_facts(6)[of E self g] a by simp
  have h: "filter is_transcribe (handle E e) = []" for e by (simp add: handle_def)
  show ?thesis
  proof (cases oc)
    case (Normal u)
    then show ?thesis using assms a af h
      by (auto simp add: run_def run_body_eq split: option.splits)
  next
    case Return
    then show ?thesis using assms a af h
      by (auto simp add: run_def run_body_eq split: option.splits)
  next
    case (Raise e)
    then show ?thesis using assms a af h
      by (auto simp add: run_def run_body_eq split: option.splits)
  qed
qed

text \<open>
  Claim C3. When a read of the cancellation flag in a job shows it set, nothing follows
  in the trace of the job: no event, no write, no call. The trace of such a job holds no
  \<open>Finished\<close> and no \<open>Error\<close> event, and when the read is the one at the start or the one
  after the model load, the inference call is not in it either.
\<close>

theorem cancelled_job_silent:
  assumes "fst (run E self g) = pre @ Check cp True # post"
  shows "post = []
       \<and> filter is_terminal (fst (run E self g)) = []
       \<and> (cp = AtStart \<or> cp = AfterLoad \<longrightarrow> filter is_transcribe (fst (run E self g)) = [])"
proof -
  from run_shape[of E self g] obtain p x where
    px: "fst (run E self g) = p @ [x]" "quiet p" and con: "consistent E (fst (run E self g))"
    by (auto simp: ended_def)
  have post: "post = []"
  proof (rule ccontr)
    assume "post \<noteq> []"
    then obtain post' y where "post = post' @ [y]" by (metis rev_exhaust)
    with assms px(1) have "p = pre @ Check cp True # post'" by simp
    with px(2) show False by simp
  qed
  with assms px(1) have eq: "p = pre" "x = Check cp True" by simp_all
  have "\<forall>a \<in> set p. \<not> is_terminal a" using px(2) by (simp add: quiet_def)
  then have t: "filter is_terminal (fst (run E self g)) = []"
    unfolding px(1) eq by (simp add: is_terminal_def)
  have "cancelled E cp" using con assms by (simp add: consistent_def)
  then have "filter is_transcribe (fst (run E self g)) = []" if "cp = AtStart \<or> cp = AfterLoad"
    using that run_no_transcribe[of E self g] by auto
  then show ?thesis using post t by blast
qed

text \<open>The statement of C3 for the example job cancelled while the model loads.\<close>

theorem cancelled_job_silent_witness:
  "fst (run cancelling_env example_job verified)
     = [Check AtStart False,
        Emit (Progress ''Loading base model (first time downloads)...'' 5),
        LoadModel ''base'' True] @ Check AfterLoad True # []
   \<and> filter is_terminal (fst (run cancelling_env example_job verified)) = []
   \<and> filter is_transcribe (fst (run cancelling_env example_job verified)) = []"
proof -
  have h: "fst (run cancelling_env example_job verified)
     = [Check AtStart False,
        Emit (Progress ''Loading base model (first time downloads)...'' 5),
        LoadModel ''base'' True] @ Check AfterLoad True # []"
    by code_simp
  show ?thesis using cancelled_job_silent[OF h] h by blast
qed

end
